theory Spec2Isabelle
  imports Complex_Main
begin

section \<open>The PID stage of PISA: \<^verbatim>\<open>pisa/pid/PID.py\<close>\<close>

text \<open>
  \<^verbatim>\<open>get_pid_maps(reco_events, pid_service)\<close> sorts the reconstructed event-rate templates of
  the four flavour categories into a track map and a cascade map: every template is
  multiplied by the category's track weight and by its cascade weight, and the products
  are added up over the categories.

  Conventions of the embedding.
  \<^item> A numpy array holds exact real numbers here: the rounding of IEEE doubles (and the
    integer dtype numpy gives an array of whole numbers) is not modelled.
  \<^item> A 2-D array is the list of its rows; an array without rows has no columns.
  \<^item> A Python dict with a fixed set of keys is a record, a dict looked up by a computed key
    is a partial map, and a failed lookup is the error \<open>KeyError key\<close>.
  \<^item> Exceptions are values: the functions return \<open>error + result\<close>.
\<close>

subsection \<open>Errors\<close>

datatype error =
    KeyError string      \<comment> \<open>a dict has no such key\<close>
  | ValueError           \<comment> \<open>numpy: operands could not be broadcast together\<close>
  | BinningMismatch      \<comment> \<open>the templates do not share one binning\<close>

subsection \<open>numpy arrays\<close>

type_synonym array2 = "real list list"

text \<open>A weight of the PID table is an array of dimension 0, 1 or 2.\<close>

datatype ndarray = Scalar real | Array1 "real list" | Array2 array2

definition ncols :: "array2 \<Rightarrow> nat" where
  "ncols a = (case a of [] \<Rightarrow> 0 | r # _ \<Rightarrow> length r)"

definition shape :: "array2 \<Rightarrow> nat \<times> nat" where
  "shape a = (length a, ncols a)"

text \<open>Every row of a well-formed array has the same length.\<close>

definition rect :: "array2 \<Rightarrow> bool" where
  "rect a = list_all (\<lambda>r. length r = ncols a) a"

text \<open>
  Broadcasting against a 2-D array puts axes of length one in front of the shape: a scalar
  counts as a \<open>1 \<times> 1\<close> array and a vector of length \<open>n\<close> as a \<open>1 \<times> n\<close> array.
\<close>

fun atleast_2d :: "ndarray \<Rightarrow> array2" where
  "atleast_2d (Scalar x) = [[x]]"
| "atleast_2d (Array1 v) = [v]"
| "atleast_2d (Array2 m) = m"

text \<open>Two axes are compatible when they are equal or one of them has length one.\<close>

definition broadcast_dim :: "nat \<Rightarrow> nat \<Rightarrow> nat option" where
  "broadcast_dim m n =
     (if m = n then Some m else if m = 1 then Some n else if n = 1 then Some m else None)"

definition broadcast_shapes :: "nat \<times> nat \<Rightarrow> nat \<times> nat \<Rightarrow> (nat \<times> nat) option" where
  "broadcast_shapes s t =
     (case broadcast_dim (fst s) (fst t) of
        None \<Rightarrow> None
      | Some r \<Rightarrow>
          (case broadcast_dim (snd s) (snd t) of
             None \<Rightarrow> None
           | Some c \<Rightarrow> Some (r, c)))"

text \<open>An axis of length one is repeated to the length asked for.\<close>

definition stretch :: "nat \<Rightarrow> 'a list \<Rightarrow> 'a list" where
  "stretch n xs = (case xs of [x] \<Rightarrow> replicate n x | _ \<Rightarrow> xs)"

definition broadcast_to :: "array2 \<Rightarrow> nat \<times> nat \<Rightarrow> array2" where
  "broadcast_to a s = stretch (fst s) (map (stretch (snd s)) a)"

text \<open>\<^verbatim>\<open>np.zeros_like(a)\<close>: a new array of the shape of \<open>a\<close>, filled with zeros.\<close>

definition zeros_like :: "array2 \<Rightarrow> array2" where
  "zeros_like a = map (map (\<lambda>_. 0)) a"

text \<open>\<^verbatim>\<open>a * w\<close>: the element-wise product of the two arrays broadcast to their common shape.\<close>

definition np_multiply :: "array2 \<Rightarrow> ndarray \<Rightarrow> error + array2" where
  "np_multiply a w =
     (let b = atleast_2d w in
      case broadcast_shapes (shape a) (shape b) of
        None \<Rightarrow> Inl ValueError
      | Some s \<Rightarrow> Inr (map2 (map2 (*)) (broadcast_to a s) (broadcast_to b s)))"

text \<open>
  \<^verbatim>\<open>acc += b\<close>: the sum is written into \<open>acc\<close>, so \<open>b\<close> has to broadcast to the shape of
  \<open>acc\<close>; numpy refuses an operand that would enlarge the output.
\<close>

definition np_iadd :: "array2 \<Rightarrow> array2 \<Rightarrow> error + array2" where
  "np_iadd acc b =
     (if broadcast_shapes (shape acc) (shape b) = Some (shape acc)
      then Inr (map2 (map2 (+)) acc (broadcast_to b (shape acc)))
      else Inl ValueError)"

subsection \<open>Templates, the PID table and the result\<close>

text \<open>A template \<^verbatim>\<open>{'ebins': ..., 'czbins': ..., 'map': ...}\<close>. The map is the array itself, or
  its address where the arrays live in a store.\<close>

record 'm template =
  ebins :: "real list"
  czbins :: "real list"
  map' :: 'm

text \<open>
  \<^verbatim>\<open>reco_events\<close>: the templates by category label, and the entry \<^verbatim>\<open>'params'\<close>, which a
  file may lack.
\<close>

record ('m, 'v) reco_events =
  templates :: "string \<rightharpoonup> 'm template"
  params :: "(string \<rightharpoonup> 'v) option"

text \<open>\<^verbatim>\<open>pid_dict[flav]\<close>: the weights \<^verbatim>\<open>{'trck': ..., 'cscd': ...}\<close> of one category.\<close>

record pid_entry =
  trck :: ndarray
  cscd :: ndarray

text \<open>
  Modelled from the spec: the class \<^verbatim>\<open>PIDService\<close> (\<^verbatim>\<open>pisa/pid/PIDService.py\<close>) is absent.
  The spec's PIDTable gives each category label a pair of weights, and has a parameter set
  of its own.
\<close>

record 'v pid_service =
  pid_maps :: "string \<rightharpoonup> pid_entry"
  pid_params :: "string \<rightharpoonup> 'v"

text \<open>The dict \<^verbatim>\<open>get_pid_maps\<close> returns: \<^verbatim>\<open>{'trck': ..., 'cscd': ..., 'params': ...}\<close>.\<close>

record ('m, 'v) reco_events_pid =
  trck :: "'m template"
  cscd :: "'m template"
  params :: "string \<rightharpoonup> 'v"

subsection \<open>The helpers \<^verbatim>\<open>get_pid_maps\<close> imports\<close>

definition flavours :: "string list" where
  "flavours = [''nue_cc'', ''numu_cc'', ''nutau_cc'', ''nuall_nc'']"

text \<open>
  Modelled from the spec: \<^verbatim>\<open>get_maps\<close> of the absent \<^verbatim>\<open>PIDService\<close> hands out the PID table.
\<close>

definition get_maps :: "'v pid_service \<Rightarrow> (string \<rightharpoonup> pid_entry)" where
  "get_maps pid_service = pid_maps pid_service"

text \<open>
  Modelled from the spec: \<^verbatim>\<open>get_params\<close> (\<^verbatim>\<open>pisa/utils/proc.py\<close>) is absent. The source
  calls it without arguments, so it reads the caller's context; by the spec the parameters
  merged into the result are the PID table's own, so the model hands it the PID service.
  \<^verbatim>\<open>report_params\<close> only logs and is left out.
\<close>

definition get_params :: "'v pid_service \<Rightarrow> (string \<rightharpoonup> 'v)" where
  "get_params pid_service = pid_params pid_service"

text \<open>
  Modelled from the spec: \<^verbatim>\<open>add_params\<close> (\<^verbatim>\<open>pisa/utils/proc.py\<close>) is absent. The spec
  starts from the parameters of the input (the second argument of the call) and overlays
  the PID table's (the first argument), whose entries win on a key both have.
\<close>

definition add_params :: "(string \<rightharpoonup> 'v) \<Rightarrow> (string \<rightharpoonup> 'v) \<Rightarrow> (string \<rightharpoonup> 'v)" where
  "add_params setA setB = (\<lambda>k. case setA k of Some v \<Rightarrow> Some v | None \<Rightarrow> setB k)"

text \<open>
  Modelled from the spec: the comparison of bin edges, part of the absent \<^verbatim>\<open>get_binning\<close>
  (\<^verbatim>\<open>pisa/utils/utils.py\<close>). Two edge sequences are equal when they have the same length
  and match element by element within a tolerance. The spec gives the tolerance no value:
  it is the parameter \<open>tol\<close>. Two templates have the same binning when their energy edges
  are equal and their cosine-zenith edges are equal.
\<close>

definition is_equal_binning :: "real \<Rightarrow> real list \<Rightarrow> real list \<Rightarrow> bool" where
  "is_equal_binning tol edges1 edges2 = list_all2 (\<lambda>x y. \<bar>x - y\<bar> \<le> tol) edges1 edges2"

definition same_binning :: "real \<Rightarrow> 'm template \<Rightarrow> 'm template \<Rightarrow> bool" where
  "same_binning tol t u \<longleftrightarrow>
     is_equal_binning tol (ebins t) (ebins u) \<and> is_equal_binning tol (czbins t) (czbins u)"

text \<open>
  Modelled from the spec: the lookups of the absent \<^verbatim>\<open>get_binning\<close>. The templates of the
  given labels, in order; the first absent label is the error.
\<close>

fun get_templates ::
  "(string \<rightharpoonup> 'm template) \<Rightarrow> string list \<Rightarrow> error + 'm template list" where
  "get_templates d [] = Inr []"
| "get_templates d (flav # rest) =
     (case d flav of
        None \<Rightarrow> Inl (KeyError flav)
      | Some t \<Rightarrow>
          (case get_templates d rest of
             Inl e \<Rightarrow> Inl e
           | Inr ts \<Rightarrow> Inr (t # ts)))"

text \<open>
  Modelled from the spec: \<^verbatim>\<open>get_binning\<close> (\<^verbatim>\<open>pisa/utils/utils.py\<close>) is absent. By the spec
  the splitter confirms that the maps of the four categories have equal binnings, fails with
  BinningMismatch if one differs from another, and takes one category's binning as the
  reference; an absent category is the spec's MissingCategory, the \<open>KeyError\<close> of the lookup.
  The reference is the template of \<^verbatim>\<open>nue_cc\<close>, the one the source takes the shape from.
\<close>

definition get_binning ::
  "real \<Rightarrow> ('m, 'v) reco_events \<Rightarrow> error + (real list \<times> real list)" where
  "get_binning tol reco =
     (case get_templates (templates reco) flavours of
        Inl e \<Rightarrow> Inl e
      | Inr ts \<Rightarrow>
          if list_all (\<lambda>t. list_all (same_binning tol t) ts) ts
          then (case templates reco ''nue_cc'' of
                  None \<Rightarrow> Inl (KeyError ''nue_cc'')
                | Some ref \<Rightarrow> Inr (ebins ref, czbins ref))
          else Inl BinningMismatch)"

subsection \<open>\<^verbatim>\<open>get_pid_maps\<close>\<close>

text \<open>
  The body of the loop over the flavours (lines 60 to 66): the two products are new arrays,
  and each is added to its accumulator.
\<close>

definition pid_step ::
  "(array2, 'v) reco_events \<Rightarrow> (string \<rightharpoonup> pid_entry) \<Rightarrow> string \<Rightarrow> (array2, 'v) reco_events_pid
     \<Rightarrow> error + (array2, 'v) reco_events_pid" where
  "pid_step reco pid_dict flav acc =
     (case templates reco flav of
        None \<Rightarrow> Inl (KeyError flav)
      | Some t \<Rightarrow>
     (case pid_dict flav of
        None \<Rightarrow> Inl (KeyError flav)
      | Some w \<Rightarrow>
     (case np_multiply (map' t) (pid_entry.trck w) of
        Inl e \<Rightarrow> Inl e
      | Inr to_trck_map \<Rightarrow>
     (case np_multiply (map' t) (pid_entry.cscd w) of
        Inl e \<Rightarrow> Inl e
      | Inr to_cscd_map \<Rightarrow>
     (case np_iadd (map' (trck acc)) to_trck_map of
        Inl e \<Rightarrow> Inl e
      | Inr trck_map \<Rightarrow>
     (case np_iadd (map' (cscd acc)) to_cscd_map of
        Inl e \<Rightarrow> Inl e
      | Inr cscd_map \<Rightarrow>
          Inr (acc\<lparr>trck := (trck acc)\<lparr>map' := trck_map\<rparr>,
                   cscd := (cscd acc)\<lparr>map' := cscd_map\<rparr>\<rparr>)))))))"

fun pid_loop ::
  "(array2, 'v) reco_events \<Rightarrow> (string \<rightharpoonup> pid_entry) \<Rightarrow> string list \<Rightarrow> (array2, 'v) reco_events_pid
     \<Rightarrow> error + (array2, 'v) reco_events_pid" where
  "pid_loop reco pid_dict [] acc = Inr acc"
| "pid_loop reco pid_dict (flav # rest) acc =
     (case pid_step reco pid_dict flav acc of
        Inl e \<Rightarrow> Inl e
      | Inr acc' \<Rightarrow> pid_loop reco pid_dict rest acc')"

text \<open>
  The function, statement by statement: the parameters (line 40), the binning (line 44), the
  result dict with its two zero maps and the merged parameters (lines 45 to 52), the PID
  table (line 56) and the loop (lines 58 to 66).
\<close>

definition get_pid_maps ::
  "real \<Rightarrow> (array2, 'v) reco_events \<Rightarrow> 'v pid_service \<Rightarrow> error + (array2, 'v) reco_events_pid" where
  "get_pid_maps tol reco pid_service =
     (let params0 = get_params pid_service in
      case get_binning tol reco of
        Inl e \<Rightarrow> Inl e
      | Inr (eb, cz) \<Rightarrow>
     (case templates reco ''nue_cc'' of
        None \<Rightarrow> Inl (KeyError ''nue_cc'')
      | Some nue \<Rightarrow>
     (case reco_events.params reco of
        None \<Rightarrow> Inl (KeyError ''params'')
      | Some reco_params \<Rightarrow>
          pid_loop reco (get_maps pid_service) flavours
            \<lparr>trck = \<lparr>ebins = eb, czbins = cz, map' = zeros_like (map' nue)\<rparr>,
             cscd = \<lparr>ebins = eb, czbins = cz, map' = zeros_like (map' nue)\<rparr>,
             params = add_params params0 reco_params\<rparr>)))"

subsection \<open>\<^verbatim>\<open>get_pid_maps\<close> on a store of arrays\<close>

text \<open>
  numpy arrays are objects: \<^verbatim>\<open>+=\<close> writes into the array on its left, and two names may
  stand for one array. The second model keeps the 2-D arrays in a store, a list indexed by
  address; a template holds the address of its map. \<^verbatim>\<open>np.zeros_like\<close> and \<^verbatim>\<open>*\<close> put a new
  array at the end of the store, \<^verbatim>\<open>+=\<close> overwrites the array at the address of the
  accumulator. Bin edges, parameters and weights stay values: no statement of the function
  writes to one. A name of Python always stands for an object, so an address beyond the
  store is no input: what is said about reading an input assumes \<open>valid_refs\<close>.
\<close>

type_synonym addr = nat

type_synonym store = "array2 list"

definition alloc :: "store \<Rightarrow> array2 \<Rightarrow> addr \<times> store" where
  "alloc h a = (length h, h @ [a])"

text \<open>
  The body of the loop. \<^verbatim>\<open>event_map\<close> is the address in the template; the two products are
  new arrays, and each sum goes to the address the result holds for that map.
\<close>

definition pid_step_st ::
  "(addr, 'v) reco_events \<Rightarrow> (string \<rightharpoonup> pid_entry) \<Rightarrow> string \<Rightarrow> (addr, 'v) reco_events_pid
     \<Rightarrow> store \<Rightarrow> error + store" where
  "pid_step_st reco pid_dict flav acc h =
     (case templates reco flav of
        None \<Rightarrow> Inl (KeyError flav)
      | Some t \<Rightarrow>
     (let event_map = map' t in
      case pid_dict flav of
        None \<Rightarrow> Inl (KeyError flav)
      | Some w \<Rightarrow>
     (case np_multiply (h ! event_map) (pid_entry.trck w) of
        Inl e \<Rightarrow> Inl e
      | Inr v1 \<Rightarrow>
     (let (to_trck_map, h1) = alloc h v1 in
      case np_multiply (h1 ! event_map) (pid_entry.cscd w) of
        Inl e \<Rightarrow> Inl e
      | Inr v2 \<Rightarrow>
     (let (to_cscd_map, h2) = alloc h1 v2 in
      case np_iadd (h2 ! map' (trck acc)) (h2 ! to_trck_map) of
        Inl e \<Rightarrow> Inl e
      | Inr s1 \<Rightarrow>
     (let h3 = h2[map' (trck acc) := s1] in
      case np_iadd (h3 ! map' (cscd acc)) (h3 ! to_cscd_map) of
        Inl e \<Rightarrow> Inl e
      | Inr s2 \<Rightarrow> Inr (h3[map' (cscd acc) := s2])))))))"

fun pid_loop_st ::
  "(addr, 'v) reco_events \<Rightarrow> (string \<rightharpoonup> pid_entry) \<Rightarrow> string list \<Rightarrow> (addr, 'v) reco_events_pid
     \<Rightarrow> store \<Rightarrow> error + store" where
  "pid_loop_st reco pid_dict [] acc h = Inr h"
| "pid_loop_st reco pid_dict (flav # rest) acc h =
     (case pid_step_st reco pid_dict flav acc h of
        Inl e \<Rightarrow> Inl e
      | Inr h' \<Rightarrow> pid_loop_st reco pid_dict rest acc h')"

text \<open>
  The function: the two calls of \<^verbatim>\<open>np.zeros_like\<close> make two arrays, whose addresses go into
  the result; the loop then writes to them. It returns the result and the store.
\<close>

definition get_pid_maps_st ::
  "real \<Rightarrow> (addr, 'v) reco_events \<Rightarrow> 'v pid_service \<Rightarrow> store
     \<Rightarrow> error + ((addr, 'v) reco_events_pid \<times> store)" where
  "get_pid_maps_st tol reco pid_service h =
     (let params0 = get_params pid_service in
      case get_binning tol reco of
        Inl e \<Rightarrow> Inl e
      | Inr (eb, cz) \<Rightarrow>
     (case templates reco ''nue_cc'' of
        None \<Rightarrow> Inl (KeyError ''nue_cc'')
      | Some nue \<Rightarrow>
     (let (trck_map, h1) = alloc h (zeros_like (h ! map' nue));
          (cscd_map, h2) = alloc h1 (zeros_like (h1 ! map' nue))
      in
      case reco_events.params reco of
        None \<Rightarrow> Inl (KeyError ''params'')
      | Some reco_params \<Rightarrow>
     (let reco_events_pid =
            \<lparr>trck = \<lparr>ebins = eb, czbins = cz, map' = trck_map\<rparr>,
             cscd = \<lparr>ebins = eb, czbins = cz, map' = cscd_map\<rparr>,
             params = add_params params0 reco_params\<rparr>
      in
      case pid_loop_st reco (get_maps pid_service) flavours reco_events_pid h2 of
        Inl e \<Rightarrow> Inl e
      | Inr h' \<Rightarrow> Inr (reco_events_pid, h')))))"

text \<open>Reading a template, an input and a result out of a store.\<close>

definition load_template :: "store \<Rightarrow> addr template \<Rightarrow> array2 template" where
  "load_template h t = \<lparr>ebins = ebins t, czbins = czbins t, map' = h ! map' t\<rparr>"

definition load_events :: "store \<Rightarrow> (addr, 'v) reco_events \<Rightarrow> (array2, 'v) reco_events" where
  "load_events h reco =
     \<lparr>templates = (\<lambda>flav. map_option (load_template h) (templates reco flav)),
      params = reco_events.params reco\<rparr>"

definition load_pid :: "store \<Rightarrow> (addr, 'v) reco_events_pid \<Rightarrow> (array2, 'v) reco_events_pid" where
  "load_pid h out =
     \<lparr>trck = load_template h (trck out), cscd = load_template h (cscd out),
      params = params out\<rparr>"

text \<open>The maps of the four categories that the input has are arrays of the store.\<close>

definition valid_refs :: "(addr, 'v) reco_events \<Rightarrow> store \<Rightarrow> bool" where
  "valid_refs reco h \<longleftrightarrow>
     list_all (\<lambda>flav. case templates reco flav of None \<Rightarrow> True | Some t \<Rightarrow> map' t < length h)
       flavours"

subsection \<open>Notions the statements use\<close>

text \<open>
  A weight fits the shape \<open>s\<close> of a map when it is a well-formed array that broadcasts to
  \<open>s\<close>: each of its axes has the length of the map's axis or length one. A scalar fits every
  shape.
\<close>

definition fits :: "ndarray \<Rightarrow> nat \<times> nat \<Rightarrow> bool" where
  "fits w s \<longleftrightarrow> rect (atleast_2d w) \<and> broadcast_shapes s (shape (atleast_2d w)) = Some s"

text \<open>The value a weight contributes to the cell \<open>(i, j)\<close> of a map it fits.\<close>

definition weight_at :: "ndarray \<Rightarrow> nat \<Rightarrow> nat \<Rightarrow> real" where
  "weight_at w i j =
     (let b = atleast_2d w
      in b ! (if length b = 1 then 0 else i) ! (if ncols b = 1 then 0 else j))"

text \<open>Both maps of a result are well-formed arrays of the shape \<open>s\<close>.\<close>

definition well_shaped :: "(array2, 'v) reco_events_pid \<Rightarrow> nat \<times> nat \<Rightarrow> bool" where
  "well_shaped acc s \<longleftrightarrow>
     rect (map' (trck acc)) \<and> shape (map' (trck acc)) = s \<and>
     rect (map' (cscd acc)) \<and> shape (map' (cscd acc)) = s"

text \<open>
  The scenario of the spec: four categories with a \<open>2 \<times> 2\<close> map of ones on the binning
  \<^verbatim>\<open>ebins=[1,10,100]\<close>, \<^verbatim>\<open>czbins=[-1,0,1]\<close>, and a PID table with the scalar weights 0.7 and
  0.3 for every category.
\<close>

definition ones_template :: "array2 template" where
  "ones_template = \<lparr>ebins = [1, 10, 100], czbins = [-1, 0, 1], map' = [[1, 1], [1, 1]]\<rparr>"

definition scenario_templates :: "string \<rightharpoonup> array2 template" where
  "scenario_templates =
     [''nue_cc'' \<mapsto> ones_template, ''numu_cc'' \<mapsto> ones_template,
      ''nutau_cc'' \<mapsto> ones_template, ''nuall_nc'' \<mapsto> ones_template]"

definition scenario_entry :: pid_entry where
  "scenario_entry = \<lparr>pid_entry.trck = Scalar 0.7, pid_entry.cscd = Scalar 0.3\<rparr>"

definition scenario_pid :: "string \<rightharpoonup> pid_entry" where
  "scenario_pid =
     [''nue_cc'' \<mapsto> scenario_entry, ''numu_cc'' \<mapsto> scenario_entry,
      ''nutau_cc'' \<mapsto> scenario_entry, ''nuall_nc'' \<mapsto> scenario_entry]"

text \<open>
  A second input, with maps that differ from cell to cell and weights of every dimension: a
  scalar, a vector over the cosine-zenith bins, a column over the energy bins and a full
  grid.
\<close>

definition grid_template :: "real \<Rightarrow> array2 template" where
  "grid_template x = \<lparr>ebins = [1, 10, 100], czbins = [-1, 0, 1], map' = [[x, 2], [3, 4]]\<rparr>"

definition grid_events :: "(array2, int) reco_events" where
  "grid_events =
     \<lparr>templates = [''nue_cc'' \<mapsto> grid_template 1, ''numu_cc'' \<mapsto> grid_template 5,
                   ''nutau_cc'' \<mapsto> grid_template 6, ''nuall_nc'' \<mapsto> grid_template 7],
      params = Some [''a'' \<mapsto> 1]\<rparr>"

definition grid_service :: "int pid_service" where
  "grid_service =
     \<lparr>pid_maps =
        [''nue_cc'' \<mapsto> \<lparr>pid_entry.trck = Scalar (1/2), pid_entry.cscd = Scalar (1/2)\<rparr>,
         ''numu_cc'' \<mapsto> \<lparr>pid_entry.trck = Array1 [1, 0], pid_entry.cscd = Array1 [0, 1]\<rparr>,
         ''nutau_cc'' \<mapsto> \<lparr>pid_entry.trck = Array2 [[1], [0]], pid_entry.cscd = Array2 [[0], [2]]\<rparr>,
         ''nuall_nc'' \<mapsto> \<lparr>pid_entry.trck = Array2 [[0, 0], [0, 1]],
                          pid_entry.cscd = Array2 [[1, 1], [1, 0]]\<rparr>],
      pid_params = [''a'' \<mapsto> 2, ''b'' \<mapsto> 3]\<rparr>"

text \<open>An input in which the template of \<^verbatim>\<open>nutau_cc\<close> has energy bin edges of its own.\<close>

definition mismatch_events :: "(array2, int) reco_events" where
  "mismatch_events =
     \<lparr>templates = scenario_templates(''nutau_cc'' \<mapsto> ones_template\<lparr>ebins := [1, 10, 1000]\<rparr>),
      params = Some Map.empty\<rparr>"


text \<open>Every cell of the array multiplied by \<open>k\<close>.\<close>

definition scale :: "real \<Rightarrow> array2 \<Rightarrow> array2" where
  "scale k a = map (map (\<lambda>x. k * x)) a"

text \<open>The input with the map of every template multiplied by \<open>k\<close>: the binnings stay.\<close>

definition scale_events :: "real \<Rightarrow> (array2, 'v) reco_events \<Rightarrow> (array2, 'v) reco_events" where
  "scale_events k reco =
     reco\<lparr>templates := (\<lambda>flav. map_option (\<lambda>t. t\<lparr>map' := scale k (map' t)\<rparr>) (templates reco flav))\<rparr>"

text \<open>The result with both maps multiplied by \<open>k\<close>.\<close>

definition scale_pid ::
  "real \<Rightarrow> (array2, 'v) reco_events_pid \<Rightarrow> (array2, 'v) reco_events_pid" where
  "scale_pid k out =
     out\<lparr>trck := (trck out)\<lparr>map' := scale k (map' (trck out))\<rparr>,
         cscd := (cscd out)\<lparr>map' := scale k (map' (cscd out))\<rparr>\<rparr>"

text \<open>Every cell of the array is zero.\<close>

definition all_zero :: "array2 \<Rightarrow> bool" where
  "all_zero a = list_all (list_all (\<lambda>x. x = 0)) a"


text \<open>
  The two maps of a result are arrays of the store at two addresses from \<open>n\<close> on.
\<close>

definition fresh_acc :: "nat \<Rightarrow> (addr, 'v) reco_events_pid \<Rightarrow> store \<Rightarrow> bool" where
  "fresh_acc n acc h \<longleftrightarrow>
     n \<le> map' (trck acc) \<and> map' (trck acc) < length h \<and>
     n \<le> map' (cscd acc) \<and> map' (cscd acc) < length h \<and>
     map' (trck acc) \<noteq> map' (cscd acc)"

text \<open>
  A store that holds the four maps of \<open>grid_events\<close>, and the input that refers to them.
\<close>

definition ref_store :: store where
  "ref_store = [[[1, 2], [3, 4]], [[5, 2], [3, 4]], [[6, 2], [3, 4]], [[7, 2], [3, 4]]]"

definition ref_template :: "addr \<Rightarrow> addr template" where
  "ref_template p = \<lparr>ebins = [1, 10, 100], czbins = [-1, 0, 1], map' = p\<rparr>"

definition ref_events :: "(addr, int) reco_events" where
  "ref_events =
     \<lparr>templates = [''nue_cc'' \<mapsto> ref_template 0, ''numu_cc'' \<mapsto> ref_template 1,
                   ''nutau_cc'' \<mapsto> ref_template 2, ''nuall_nc'' \<mapsto> ref_template 3],
      params = Some [''a'' \<mapsto> 1]\<rparr>"

section \<open>Properties of the array operations\<close>

lemma stretch_single: "stretch n [x] = replicate n x"
  by (simp add: stretch_def)

lemma stretch_other: "length xs \<noteq> 1 \<Longrightarrow> stretch n xs = xs"
  by (cases xs) (auto simp: stretch_def split: list.splits)

lemma length_1_conv: "length xs = Suc 0 \<longleftrightarrow> (\<exists>x. xs = [x])"
  by (cases xs) auto

lemma broadcast_dim_same: "broadcast_dim m n = Some m \<longleftrightarrow> n = m \<or> n = 1"
  by (auto simp: broadcast_dim_def)

lemma broadcast_shapes_same:
  "broadcast_shapes (r, c) (p, q) = Some (r, c) \<longleftrightarrow> (p = r \<or> p = 1) \<and> (q = c \<or> q = 1)"
  by (auto simp: broadcast_shapes_def broadcast_dim_def split: option.splits)

lemma broadcast_shapes_refl: "broadcast_shapes s s = Some s"
  by (cases s) (simp add: broadcast_shapes_same)

lemma rect_rows: "rect a \<Longrightarrow> row \<in> set a \<Longrightarrow> length row = ncols a"
  by (simp add: rect_def list_all_iff)

lemma stretch_row_length:
  "length row = q \<Longrightarrow> q = c \<or> q = 1 \<Longrightarrow> length (stretch c row) = c"
  by (cases "length row = 1") (auto simp: length_1_conv stretch_single stretch_other)

lemma stretch_row_nth:
  "length row = q \<Longrightarrow> q = c \<or> q = 1 \<Longrightarrow> j < c \<Longrightarrow>
     stretch c row ! j = row ! (if q = 1 then 0 else j)"
  by (cases "length row = 1") (auto simp: length_1_conv stretch_single stretch_other)

lemma broadcast_to_length:
  assumes "broadcast_shapes (r, c) (shape b) = Some (r, c)"
  shows "length (broadcast_to b (r, c)) = r"
proof -
  from assms have "length b = r \<or> length b = 1"
    by (simp add: shape_def broadcast_shapes_same)
  then have "length (stretch r (map (stretch c) b)) = r"
    by (intro stretch_row_length[where q = "length b"]) auto
  then show ?thesis by (simp add: broadcast_to_def)
qed

lemma broadcast_to_row:
  assumes "rect b" "broadcast_shapes (r, c) (shape b) = Some (r, c)" "i < r"
  shows "broadcast_to b (r, c) ! i = stretch c (b ! (if length b = 1 then 0 else i))"
proof -
  from assms have len: "length b = r \<or> length b = 1"
    by (simp add: shape_def broadcast_shapes_same)
  have "stretch r (map (stretch c) b) ! i = map (stretch c) b ! (if length b = 1 then 0 else i)"
    using len assms(3) by (intro stretch_row_nth[where q = "length b"]) auto
  also have "\<dots> = stretch c (b ! (if length b = 1 then 0 else i))"
    using len assms(3) by auto
  finally show ?thesis by (simp add: broadcast_to_def)
qed

lemma broadcast_to_row_length:
  assumes "rect b" "broadcast_shapes (r, c) (shape b) = Some (r, c)" "i < r"
  shows "length (broadcast_to b (r, c) ! i) = c"
proof -
  from assms have len: "length b = r \<or> length b = 1" and cols: "ncols b = c \<or> ncols b = 1"
    by (simp_all add: shape_def broadcast_shapes_same)
  let ?row = "b ! (if length b = 1 then 0 else i)"
  from len assms(3) have "?row \<in> set b" by auto
  with assms(1) have "length ?row = ncols b" by (rule rect_rows)
  then have "length (stretch c ?row) = c" using cols by (rule stretch_row_length)
  then show ?thesis by (simp add: broadcast_to_row[OF assms])
qed

lemma broadcast_to_nth:
  assumes "rect b" "broadcast_shapes (r, c) (shape b) = Some (r, c)" "i < r" "j < c"
  shows "broadcast_to b (r, c) ! i ! j =
         b ! (if length b = 1 then 0 else i) ! (if ncols b = 1 then 0 else j)"
proof -
  from assms have len: "length b = r \<or> length b = 1" and cols: "ncols b = c \<or> ncols b = 1"
    by (simp_all add: shape_def broadcast_shapes_same)
  let ?row = "b ! (if length b = 1 then 0 else i)"
  from len assms(3) have "?row \<in> set b" by auto
  with assms(1) have "length ?row = ncols b" by (rule rect_rows)
  then have "stretch c ?row ! j = ?row ! (if ncols b = 1 then 0 else j)"
    using cols assms(4) by (rule stretch_row_nth)
  then show ?thesis by (simp add: broadcast_to_row[OF assms(1-3)])
qed

lemma broadcast_to_self: "rect a \<Longrightarrow> broadcast_to a (shape a) = a"
proof -
  assume r: "rect a"
  have rows: "map (stretch (ncols a)) a = a"
  proof (rule map_idI)
    fix row assume "row \<in> set a"
    with r have l: "length row = ncols a" by (rule rect_rows)
    show "stretch (ncols a) row = row"
    proof (cases "length row = 1")
      case True
      then obtain x where "row = [x]" by (auto simp: length_1_conv)
      with l have "ncols a = Suc 0" by simp
      with \<open>row = [x]\<close> show ?thesis by (simp add: stretch_single)
    next
      case False
      then show ?thesis by (rule stretch_other)
    qed
  qed
  have "stretch (length a) a = a"
  proof (cases "length a = 1")
    case True
    then obtain x where "a = [x]" by (auto simp: length_1_conv)
    then show ?thesis by (simp add: stretch_single)
  next
    case False
    then show ?thesis by (rule stretch_other)
  qed
  with rows show ?thesis by (simp add: broadcast_to_def shape_def)
qed


lemma ncols_nth0: "0 < length a \<Longrightarrow> ncols a = length (a ! 0)"
  by (cases a) (simp_all add: ncols_def)

lemma shape_rectD:
  assumes "rect a" "shape a = (r, c)"
  shows "length a = r" and "i < r \<Longrightarrow> length (a ! i) = c" and "r = 0 \<Longrightarrow> c = 0"
proof -
  from assms(2) show len: "length a = r" by (simp add: shape_def)
  from assms(2) have nc: "ncols a = c" by (simp add: shape_def)
  show "length (a ! i) = c" if "i < r"
    using that len nc rect_rows[OF assms(1), of "a ! i"] by simp
  show "c = 0" if "r = 0"
    using that len nc by (simp add: ncols_def)
qed

lemma shape_rectI:
  assumes "length p = r" "\<And>i. i < r \<Longrightarrow> length (p ! i) = c" "r = 0 \<Longrightarrow> c = 0"
  shows "rect p" and "shape p = (r, c)"
proof -
  have nc: "ncols p = c"
  proof (cases "r = 0")
    case True
    with assms(1,3) show ?thesis by (simp add: ncols_def)
  next
    case False
    with assms(1) assms(2)[of 0] show ?thesis by (simp add: ncols_nth0)
  qed
  with assms(1) show "shape p = (r, c)" by (simp add: shape_def)
  show "rect p"
    unfolding rect_def list_all_length using assms(1,2) nc by simp
qed

lemma np_multiply_fits:
  assumes a: "rect a" "shape a = (r, c)" and w: "fits w (r, c)"
  shows "\<exists>p. np_multiply a w = Inr p \<and> rect p \<and> shape p = (r, c) \<and>
           (\<forall>i<r. \<forall>j<c. p ! i ! j = a ! i ! j * weight_at w i j)"
proof -
  let ?b = "atleast_2d w"
  let ?B = "broadcast_to ?b (r, c)"
  let ?p = "map2 (map2 (*)) a ?B"
  from w have rb: "rect ?b" and bs: "broadcast_shapes (r, c) (shape ?b) = Some (r, c)"
    by (simp_all add: fits_def)
  from a have self: "broadcast_to a (r, c) = a"
    using broadcast_to_self[of a] by simp
  have eq: "np_multiply a w = Inr ?p"
    by (simp add: np_multiply_def Let_def a(2) bs self)
  note ad = shape_rectD[OF a]
  have lenB: "length ?B = r" by (rule broadcast_to_length[OF bs])
  have lenp: "length ?p = r" using ad(1) lenB by simp
  have row: "?p ! i = map2 (*) (a ! i) (?B ! i)" if "i < r" for i
    using that ad(1) lenB by simp
  have rowlen: "length (?p ! i) = c" if "i < r" for i
    using that row ad(2) broadcast_to_row_length[OF rb bs] by simp
  have cell: "?p ! i ! j = a ! i ! j * weight_at w i j" if "i < r" "j < c" for i j
    using that row ad(2) broadcast_to_row_length[OF rb bs] broadcast_to_nth[OF rb bs]
    by (simp add: weight_at_def Let_def)
  from shape_rectI[OF lenp rowlen ad(3)] have "rect ?p" "shape ?p = (r, c)" by simp_all
  with eq cell show ?thesis by blast
qed

lemma np_iadd_same:
  assumes a: "rect acc" "shape acc = (r, c)" and b: "rect p" "shape p = (r, c)"
  shows "\<exists>q. np_iadd acc p = Inr q \<and> rect q \<and> shape q = (r, c) \<and>
           (\<forall>i<r. \<forall>j<c. q ! i ! j = acc ! i ! j + p ! i ! j)"
proof -
  let ?q = "map2 (map2 (+)) acc p"
  from b have self: "broadcast_to p (r, c) = p"
    using broadcast_to_self[of p] by simp
  have eq: "np_iadd acc p = Inr ?q"
    by (simp add: np_iadd_def a(2) b(2) broadcast_shapes_refl self)
  note ad = shape_rectD[OF a] and bd = shape_rectD[OF b]
  have lenq: "length ?q = r" using ad(1) bd(1) by simp
  have row: "?q ! i = map2 (+) (acc ! i) (p ! i)" if "i < r" for i
    using that ad(1) bd(1) by simp
  have rowlen: "length (?q ! i) = c" if "i < r" for i
    using that row ad(2) bd(2) by simp
  have cell: "?q ! i ! j = acc ! i ! j + p ! i ! j" if "i < r" "j < c" for i j
    using that row ad(2) bd(2) by simp
  from shape_rectI[OF lenq rowlen ad(3)] have "rect ?q" "shape ?q = (r, c)" by simp_all
  with eq cell show ?thesis by blast
qed

lemma zeros_like_props:
  assumes a: "rect a" "shape a = (r, c)"
  shows "rect (zeros_like a)" and "shape (zeros_like a) = (r, c)"
    and "i < r \<Longrightarrow> j < c \<Longrightarrow> zeros_like a ! i ! j = 0"
proof -
  note ad = shape_rectD[OF a]
  have len: "length (zeros_like a) = r" using ad(1) by (simp add: zeros_like_def)
  have rowlen: "length (zeros_like a ! i) = c" if "i < r" for i
    using that ad(1,2) by (simp add: zeros_like_def)
  from shape_rectI[OF len rowlen ad(3)]
  show "rect (zeros_like a)" and "shape (zeros_like a) = (r, c)" by simp_all
  show "zeros_like a ! i ! j = 0" if "i < r" "j < c"
    using that ad(1,2) by (simp add: zeros_like_def)
qed

lemma pid_step_frame:
  "pid_step reco pid flav acc = Inr out \<Longrightarrow>
     ebins (trck out) = ebins (trck acc) \<and> czbins (trck out) = czbins (trck acc) \<and>
     ebins (cscd out) = ebins (cscd acc) \<and> czbins (cscd out) = czbins (cscd acc) \<and>
     params out = params acc"
  by (auto simp: pid_step_def split: option.splits sum.splits)

lemma pid_loop_frame:
  "pid_loop reco pid fs acc = Inr out \<Longrightarrow>
     ebins (trck out) = ebins (trck acc) \<and> czbins (trck out) = czbins (trck acc) \<and>
     ebins (cscd out) = ebins (cscd acc) \<and> czbins (cscd out) = czbins (cscd acc) \<and>
     params out = params acc"
proof (induction fs arbitrary: acc)
  case Nil
  then show ?case by simp
next
  case (Cons flav rest)
  from Cons.prems obtain acc' where
    step: "pid_step reco pid flav acc = Inr acc'" and loop: "pid_loop reco pid rest acc' = Inr out"
    by (auto split: sum.splits)
  from Cons.IH[OF loop] pid_step_frame[OF step] show ?case by simp
qed

lemma pid_step_cells:
  assumes t: "templates reco flav = Some t" "rect (map' t)" "shape (map' t) = (r, c)"
    and w: "pid flav = Some w" "fits (pid_entry.trck w) (r, c)" "fits (pid_entry.cscd w) (r, c)"
    and acc: "well_shaped acc (r, c)"
  shows "\<exists>out. pid_step reco pid flav acc = Inr out \<and> well_shaped out (r, c) \<and>
           (\<forall>i<r. \<forall>j<c.
              map' (trck out) ! i ! j =
                map' (trck acc) ! i ! j + map' t ! i ! j * weight_at (pid_entry.trck w) i j \<and>
              map' (cscd out) ! i ! j =
                map' (cscd acc) ! i ! j + map' t ! i ! j * weight_at (pid_entry.cscd w) i j)"
proof -
  from np_multiply_fits[OF t(2,3) w(2)] obtain pt where
    pt: "np_multiply (map' t) (pid_entry.trck w) = Inr pt" "rect pt" "shape pt = (r, c)"
      "\<forall>i<r. \<forall>j<c. pt ! i ! j = map' t ! i ! j * weight_at (pid_entry.trck w) i j"
    by blast
  from np_multiply_fits[OF t(2,3) w(3)] obtain pc where
    pc: "np_multiply (map' t) (pid_entry.cscd w) = Inr pc" "rect pc" "shape pc = (r, c)"
      "\<forall>i<r. \<forall>j<c. pc ! i ! j = map' t ! i ! j * weight_at (pid_entry.cscd w) i j"
    by blast
  from acc have at: "rect (map' (trck acc))" "shape (map' (trck acc)) = (r, c)"
    and ac: "rect (map' (cscd acc))" "shape (map' (cscd acc)) = (r, c)"
    by (simp_all add: well_shaped_def)
  from np_iadd_same[OF at pt(2,3)] obtain qt where
    qt: "np_iadd (map' (trck acc)) pt = Inr qt" "rect qt" "shape qt = (r, c)"
      "\<forall>i<r. \<forall>j<c. qt ! i ! j = map' (trck acc) ! i ! j + pt ! i ! j"
    by blast
  from np_iadd_same[OF ac pc(2,3)] obtain qc where
    qc: "np_iadd (map' (cscd acc)) pc = Inr qc" "rect qc" "shape qc = (r, c)"
      "\<forall>i<r. \<forall>j<c. qc ! i ! j = map' (cscd acc) ! i ! j + pc ! i ! j"
    by blast
  let ?out = "acc\<lparr>trck := (trck acc)\<lparr>map' := qt\<rparr>, cscd := (cscd acc)\<lparr>map' := qc\<rparr>\<rparr>"
  have "pid_step reco pid flav acc = Inr ?out"
    by (simp add: pid_step_def t(1) w(1) pt(1) pc(1) qt(1) qc(1))
  moreover have "well_shaped ?out (r, c)"
    by (simp add: well_shaped_def qt(2,3) qc(2,3))
  moreover have "map' (trck ?out) ! i ! j =
      map' (trck acc) ! i ! j + map' t ! i ! j * weight_at (pid_entry.trck w) i j"
    if "i < r" "j < c" for i j
    using that qt(4) pt(4) by simp
  moreover have "map' (cscd ?out) ! i ! j =
      map' (cscd acc) ! i ! j + map' t ! i ! j * weight_at (pid_entry.cscd w) i j"
    if "i < r" "j < c" for i j
    using that qc(4) pc(4) by simp
  ultimately show ?thesis by blast
qed

lemma pid_loop_cells:
  assumes "map (templates reco) fs = map Some ts" "map pid fs = map Some ws"
    and "\<forall>t\<in>set ts. rect (map' t) \<and> shape (map' t) = (r, c)"
    and "\<forall>w\<in>set ws. fits (pid_entry.trck w) (r, c) \<and> fits (pid_entry.cscd w) (r, c)"
    and "well_shaped acc (r, c)"
  shows "\<exists>out. pid_loop reco pid fs acc = Inr out \<and> well_shaped out (r, c) \<and>
           (\<forall>i<r. \<forall>j<c.
              map' (trck out) ! i ! j = map' (trck acc) ! i ! j +
                (\<Sum>(t, w)\<leftarrow>zip ts ws. map' t ! i ! j * weight_at (pid_entry.trck w) i j) \<and>
              map' (cscd out) ! i ! j = map' (cscd acc) ! i ! j +
                (\<Sum>(t, w)\<leftarrow>zip ts ws. map' t ! i ! j * weight_at (pid_entry.cscd w) i j))"
  using assms
proof (induction fs arbitrary: ts ws acc)
  case Nil
  then show ?case by simp
next
  case (Cons flav rest)
  from Cons.prems(1) obtain t ts' where ts: "ts = t # ts'"
    "templates reco flav = Some t" "map (templates reco) rest = map Some ts'"
    by (cases ts) auto
  from Cons.prems(2) obtain w ws' where ws: "ws = w # ws'"
    "pid flav = Some w" "map pid rest = map Some ws'"
    by (cases ws) auto
  from Cons.prems(3) ts(1) have t: "rect (map' t)" "shape (map' t) = (r, c)"
    and ts': "\<forall>t\<in>set ts'. rect (map' t) \<and> shape (map' t) = (r, c)" by simp_all
  from Cons.prems(4) ws(1) have w: "fits (pid_entry.trck w) (r, c)" "fits (pid_entry.cscd w) (r, c)"
    and ws': "\<forall>w\<in>set ws'. fits (pid_entry.trck w) (r, c) \<and> fits (pid_entry.cscd w) (r, c)"
    by simp_all
  from pid_step_cells[where pid = pid and flav = flav, OF ts(2) t ws(2) w Cons.prems(5)] obtain acc' where
    step: "pid_step reco pid flav acc = Inr acc'" "well_shaped acc' (r, c)"
      "\<forall>i<r. \<forall>j<c.
         map' (trck acc') ! i ! j =
           map' (trck acc) ! i ! j + map' t ! i ! j * weight_at (pid_entry.trck w) i j \<and>
         map' (cscd acc') ! i ! j =
           map' (cscd acc) ! i ! j + map' t ! i ! j * weight_at (pid_entry.cscd w) i j"
    by blast
  from Cons.IH[OF ts(3) ws(3) ts' ws' step(2)] obtain out where
    out: "pid_loop reco pid rest acc' = Inr out" "well_shaped out (r, c)"
      "\<forall>i<r. \<forall>j<c.
         map' (trck out) ! i ! j = map' (trck acc') ! i ! j +
           (\<Sum>(t, w)\<leftarrow>zip ts' ws'. map' t ! i ! j * weight_at (pid_entry.trck w) i j) \<and>
         map' (cscd out) ! i ! j = map' (cscd acc') ! i ! j +
           (\<Sum>(t, w)\<leftarrow>zip ts' ws'. map' t ! i ! j * weight_at (pid_entry.cscd w) i j)"
    by blast
  have "pid_loop reco pid (flav # rest) acc = Inr out"
    by (simp add: step(1) out(1))
  moreover have "\<forall>i<r. \<forall>j<c.
         map' (trck out) ! i ! j = map' (trck acc) ! i ! j +
           (\<Sum>(t, w)\<leftarrow>zip ts ws. map' t ! i ! j * weight_at (pid_entry.trck w) i j) \<and>
         map' (cscd out) ! i ! j = map' (cscd acc) ! i ! j +
           (\<Sum>(t, w)\<leftarrow>zip ts ws. map' t ! i ! j * weight_at (pid_entry.cscd w) i j)"
    using step(3) out(3) by (simp add: ts(1) ws(1))
  ultimately show ?case using out(2) by blast
qed

lemma get_templates_Some: "map d fs = map Some ts \<Longrightarrow> get_templates d fs = Inr ts"
proof (induction fs arbitrary: ts)
  case Nil
  then show ?case by simp
next
  case (Cons f fs)
  then show ?case by (cases ts) auto
qed

lemma get_binning_ok:
  assumes "map (templates reco) flavours = map Some ts"
    and "\<forall>t\<in>set ts. \<forall>u\<in>set ts. same_binning tol t u"
  shows "\<exists>nue. templates reco ''nue_cc'' = Some nue \<and> nue \<in> set ts \<and>
           get_binning tol reco = Inr (ebins nue, czbins nue)"
proof -
  from assms(1) obtain nue rest where ts: "ts = nue # rest" "templates reco ''nue_cc'' = Some nue"
    by (cases ts) (auto simp: flavours_def)
  have "get_binning tol reco = Inr (ebins nue, czbins nue)"
    using assms(2) by (simp add: get_binning_def get_templates_Some[OF assms(1)] list_all_iff ts(2))
  with ts show ?thesis by simp
qed

lemma get_pid_maps_cells:
  assumes ts: "map (templates reco) flavours = map Some ts"
    and ws: "map (get_maps pid_service) flavours = map Some ws"
    and shapes: "\<forall>t\<in>set ts. rect (map' t) \<and> shape (map' t) = (r, c)"
    and weights: "\<forall>w\<in>set ws. fits (pid_entry.trck w) (r, c) \<and> fits (pid_entry.cscd w) (r, c)"
    and binning: "\<forall>t\<in>set ts. \<forall>u\<in>set ts. same_binning tol t u"
    and params: "reco_events.params reco = Some reco_params"
  shows "\<exists>out. get_pid_maps tol reco pid_service = Inr out \<and> well_shaped out (r, c) \<and>
           (\<forall>i<r. \<forall>j<c.
              map' (trck out) ! i ! j =
                (\<Sum>(t, w)\<leftarrow>zip ts ws. map' t ! i ! j * weight_at (pid_entry.trck w) i j) \<and>
              map' (cscd out) ! i ! j =
                (\<Sum>(t, w)\<leftarrow>zip ts ws. map' t ! i ! j * weight_at (pid_entry.cscd w) i j))"
proof -
  from get_binning_ok[OF ts binning] obtain nue where
    nue: "templates reco ''nue_cc'' = Some nue" "nue \<in> set ts"
      "get_binning tol reco = Inr (ebins nue, czbins nue)"
    by blast
  from shapes nue(2) have sh: "rect (map' nue)" "shape (map' nue) = (r, c)" by simp_all
  let ?acc = "\<lparr>trck = \<lparr>ebins = ebins nue, czbins = czbins nue, map' = zeros_like (map' nue)\<rparr>,
               cscd = \<lparr>ebins = ebins nue, czbins = czbins nue, map' = zeros_like (map' nue)\<rparr>,
               params = add_params (get_params pid_service) reco_params\<rparr>"
  have eq: "get_pid_maps tol reco pid_service = pid_loop reco (get_maps pid_service) flavours ?acc"
    by (simp add: get_pid_maps_def nue(1,3) params)
  have acc: "well_shaped ?acc (r, c)"
    by (simp add: well_shaped_def zeros_like_props(1,2)[OF sh])
  from pid_loop_cells[OF ts ws shapes weights acc] obtain out where
    out: "pid_loop reco (get_maps pid_service) flavours ?acc = Inr out" "well_shaped out (r, c)"
      "\<forall>i<r. \<forall>j<c.
         map' (trck out) ! i ! j = map' (trck ?acc) ! i ! j +
           (\<Sum>(t, w)\<leftarrow>zip ts ws. map' t ! i ! j * weight_at (pid_entry.trck w) i j) \<and>
         map' (cscd out) ! i ! j = map' (cscd ?acc) ! i ! j +
           (\<Sum>(t, w)\<leftarrow>zip ts ws. map' t ! i ! j * weight_at (pid_entry.cscd w) i j)"
    by blast
  have "map' (trck out) ! i ! j =
          (\<Sum>(t, w)\<leftarrow>zip ts ws. map' t ! i ! j * weight_at (pid_entry.trck w) i j) \<and>
        map' (cscd out) ! i ! j =
          (\<Sum>(t, w)\<leftarrow>zip ts ws. map' t ! i ! j * weight_at (pid_entry.cscd w) i j)"
    if "i < r" "j < c" for i j
    using that out(3) zeros_like_props(3)[OF sh] by simp
  with eq out(1,2) show ?thesis by simp
qed

lemma is_equal_binning_exact: "is_equal_binning 0 edges1 edges2 \<longleftrightarrow> edges1 = edges2"
proof -
  have "(\<lambda>x y :: real. \<bar>x - y\<bar> \<le> 0) = (=)"
    by (intro ext) auto
  then show ?thesis by (simp add: is_equal_binning_def list_all2_eq)
qed

lemma same_binning_exact:
  "same_binning 0 t u \<longleftrightarrow> ebins t = ebins u \<and> czbins t = czbins u"
  by (simp add: same_binning_def is_equal_binning_exact)

lemma get_templates_Inr: "get_templates d fs = Inr ts \<Longrightarrow> map d fs = map Some ts"
proof (induction fs arbitrary: ts)
  case Nil
  then show ?case by simp
next
  case (Cons f fs)
  then show ?case by (auto split: option.splits sum.splits)
qed

lemma get_binning_Inr:
  assumes "get_binning tol reco = Inr (eb, cz)"
  shows "\<exists>nue. templates reco ''nue_cc'' = Some nue \<and> eb = ebins nue \<and> cz = czbins nue \<and>
           (\<forall>flav\<in>set flavours. \<exists>t. templates reco flav = Some t \<and> same_binning tol t nue)"
proof -
  from assms obtain ts nue where
    ts: "get_templates (templates reco) flavours = Inr ts"
    and pairs: "list_all (\<lambda>t. list_all (same_binning tol t) ts) ts"
    and nue: "templates reco ''nue_cc'' = Some nue" "eb = ebins nue" "cz = czbins nue"
    by (auto simp: get_binning_def split: sum.splits if_splits option.splits)
  from get_templates_Inr[OF ts] have m: "map (templates reco) flavours = map Some ts" .
  then have "Some nue \<in> set (map Some ts)"
    using nue(1) by (auto simp: flavours_def)
  then have nue_in: "nue \<in> set ts" by auto
  have "\<exists>t. templates reco flav = Some t \<and> same_binning tol t nue" if "flav \<in> set flavours" for flav
  proof -
    from that have "templates reco flav \<in> set (map Some ts)"
      unfolding m[symmetric] by simp
    then obtain t where t: "templates reco flav = Some t" "t \<in> set ts" by auto
    with pairs nue_in have "same_binning tol t nue" by (simp add: list_all_iff)
    with t show ?thesis by blast
  qed
  with nue show ?thesis by blast
qed

lemma get_pid_maps_Inr:
  assumes "get_pid_maps tol reco pid_service = Inr out"
  shows "\<exists>nue reco_params.
           get_binning tol reco = Inr (ebins nue, czbins nue) \<and>
           templates reco ''nue_cc'' = Some nue \<and>
           reco_events.params reco = Some reco_params \<and>
           pid_loop reco (get_maps pid_service) flavours
             \<lparr>trck = \<lparr>ebins = ebins nue, czbins = czbins nue, map' = zeros_like (map' nue)\<rparr>,
              cscd = \<lparr>ebins = ebins nue, czbins = czbins nue, map' = zeros_like (map' nue)\<rparr>,
              params = add_params (get_params pid_service) reco_params\<rparr> = Inr out"
proof -
  from assms obtain eb cz nue reco_params where
    b: "get_binning tol reco = Inr (eb, cz)"
    and n: "templates reco ''nue_cc'' = Some nue"
    and p: "reco_events.params reco = Some reco_params"
    and l: "pid_loop reco (get_maps pid_service) flavours
             \<lparr>trck = \<lparr>ebins = eb, czbins = cz, map' = zeros_like (map' nue)\<rparr>,
              cscd = \<lparr>ebins = eb, czbins = cz, map' = zeros_like (map' nue)\<rparr>,
              params = add_params (get_params pid_service) reco_params\<rparr> = Inr out"
    by (auto simp: get_pid_maps_def split: sum.splits option.splits)
  from get_binning_Inr[OF b] n have "eb = ebins nue" "cz = czbins nue" by auto
  with b n p l show ?thesis by blast
qed





lemma stretch_map: "stretch n (map f xs) = map f (stretch n xs)"
proof (cases "\<exists>x. xs = [x]")
  case True
  then show ?thesis by (auto simp: stretch_single)
next
  case False
  then have "length xs \<noteq> 1" by (simp add: length_1_conv)
  then show ?thesis by (simp add: stretch_other)
qed

lemma ncols_scale: "ncols (scale k a) = ncols a"
  by (cases a) (simp_all add: ncols_def scale_def)

lemma shape_scale: "shape (scale k a) = shape a"
  by (simp add: shape_def ncols_scale) (simp add: scale_def)

lemma broadcast_to_scale: "broadcast_to (scale k a) s = scale k (broadcast_to a s)"
proof -
  have "map (stretch (snd s)) (map (map (\<lambda>x. k * x)) a) =
        map (map (\<lambda>x. k * x)) (map (stretch (snd s)) a)"
    by (simp add: stretch_map)
  then show ?thesis
    by (simp add: broadcast_to_def scale_def stretch_map)
qed

lemma zeros_like_scale: "zeros_like (scale k a) = scale k (zeros_like a)"
  by (simp add: zeros_like_def scale_def)

lemma map2_times_scale: "map2 (*) (map (\<lambda>x. k * x) xs) ys = map (\<lambda>x. k * x) (map2 (*) xs ys)"
  for xs ys :: "real list"
  by (induction xs ys rule: list_induct2') simp_all

lemma map2_plus_scale:
  "map2 (+) (map (\<lambda>x. k * x) xs) (map (\<lambda>x. k * x) ys) = map (\<lambda>x. k * x) (map2 (+) xs ys)"
  for xs ys :: "real list"
  by (induction xs ys rule: list_induct2') (simp_all add: distrib_left)

lemma times_scale: "map2 (map2 (*)) (scale k a) b = scale k (map2 (map2 (*)) a b)"
  unfolding scale_def
  by (induction a b rule: list_induct2') (simp_all add: map2_times_scale)

lemma plus_scale: "map2 (map2 (+)) (scale k a) (scale k b) = scale k (map2 (map2 (+)) a b)"
  unfolding scale_def
  by (induction a b rule: list_induct2') (simp_all add: map2_plus_scale)

lemma np_multiply_scale:
  "np_multiply a w = Inr p \<Longrightarrow> np_multiply (scale k a) w = Inr (scale k p)"
  by (auto simp: np_multiply_def Let_def shape_scale broadcast_to_scale times_scale
      split: option.splits)

lemma np_iadd_scale:
  "np_iadd acc p = Inr q \<Longrightarrow> np_iadd (scale k acc) (scale k p) = Inr (scale k q)"
  by (auto simp: np_iadd_def shape_scale broadcast_to_scale plus_scale split: if_splits)

lemma pid_step_scale:
  assumes "pid_step reco pid flav acc = Inr acc'"
  shows "pid_step (scale_events k reco) pid flav (scale_pid k acc) = Inr (scale_pid k acc')"
proof -
  from assms obtain t w pt pc qt qc where
    t: "templates reco flav = Some t" and w: "pid flav = Some w"
    and pt: "np_multiply (map' t) (pid_entry.trck w) = Inr pt"
    and pc: "np_multiply (map' t) (pid_entry.cscd w) = Inr pc"
    and qt: "np_iadd (map' (trck acc)) pt = Inr qt"
    and qc: "np_iadd (map' (cscd acc)) pc = Inr qc"
    and acc': "acc' = acc\<lparr>trck := (trck acc)\<lparr>map' := qt\<rparr>, cscd := (cscd acc)\<lparr>map' := qc\<rparr>\<rparr>"
    by (auto simp: pid_step_def split: option.splits sum.splits)
  show ?thesis
    by (simp add: pid_step_def scale_events_def t w scale_pid_def acc'
        np_multiply_scale[OF pt] np_multiply_scale[OF pc]
        np_iadd_scale[OF qt] np_iadd_scale[OF qc])
qed

lemma pid_loop_scale:
  "pid_loop reco pid fs acc = Inr out \<Longrightarrow>
     pid_loop (scale_events k reco) pid fs (scale_pid k acc) = Inr (scale_pid k out)"
proof (induction fs arbitrary: acc)
  case Nil
  then show ?case by simp
next
  case (Cons flav rest)
  from Cons.prems obtain acc' where
    step: "pid_step reco pid flav acc = Inr acc'" and loop: "pid_loop reco pid rest acc' = Inr out"
    by (auto split: sum.splits)
  show ?case
    by (simp add: pid_step_scale[OF step] Cons.IH[OF loop])
qed

lemma same_binning_scale:
  "same_binning tol (t\<lparr>map' := a\<rparr>) (u\<lparr>map' := b\<rparr>) = same_binning tol t u"
  by (simp add: same_binning_def)

lemma get_templates_scale:
  "get_templates d fs = Inr ts \<Longrightarrow>
     get_templates (\<lambda>flav. map_option (\<lambda>t. t\<lparr>map' := scale k (map' t)\<rparr>) (d flav)) fs =
       Inr (map (\<lambda>t. t\<lparr>map' := scale k (map' t)\<rparr>) ts)"
proof (induction fs arbitrary: ts)
  case Nil
  then show ?case by simp
next
  case (Cons f fs)
  from Cons.prems obtain t ts' where
    "d f = Some t" "get_templates d fs = Inr ts'" "ts = t # ts'"
    by (auto split: option.splits sum.splits)
  with Cons.IH[of ts'] show ?case by simp
qed

lemma get_binning_scale:
  assumes "get_binning tol reco = Inr b"
  shows "get_binning tol (scale_events k reco) = Inr b"
proof -
  from assms obtain ts nue where
    ts: "get_templates (templates reco) flavours = Inr ts"
    and pairs: "list_all (\<lambda>t. list_all (same_binning tol t) ts) ts"
    and nue: "templates reco ''nue_cc'' = Some nue" "b = (ebins nue, czbins nue)"
    by (auto simp: get_binning_def split: sum.splits if_splits option.splits)
  from pairs have "list_all (\<lambda>t. list_all (same_binning tol t)
        (map (\<lambda>t. t\<lparr>map' := scale k (map' t)\<rparr>) ts)) (map (\<lambda>t. t\<lparr>map' := scale k (map' t)\<rparr>) ts)"
    by (simp add: list_all_iff same_binning_scale)
  then show ?thesis
    by (simp add: get_binning_def scale_events_def get_templates_scale[OF ts] nue)
qed


lemma grid_run:
  "get_pid_maps 0 grid_events grid_service =
     Inr \<lparr>trck = \<lparr>ebins = [1, 10, 100], czbins = [-1, 0, 1], map' = [[23/2, 3], [9/2, 6]]\<rparr>,
          cscd = \<lparr>ebins = [1, 10, 100], czbins = [-1, 0, 1], map' = [[15/2, 5], [21/2, 14]]\<rparr>,
          params = [''a'' \<mapsto> 2, ''b'' \<mapsto> 3]\<rparr>"
proof -
  have mul: "np_multiply [[a, b], [c, d]] (Array2 [[w, x], [y, z]]) =
      Inr [[a * w, b * x], [c * y, d * z]]" for a b c d w x y z
    by (simp add: np_multiply_def shape_def ncols_def broadcast_shapes_def broadcast_dim_def
        broadcast_to_def stretch_def)
  have mul0: "np_multiply [[a, b], [c, d]] (Scalar w) = Inr [[a * w, b * w], [c * w, d * w]]"
    for a b c d w
    by (simp add: np_multiply_def shape_def ncols_def broadcast_shapes_def broadcast_dim_def
        broadcast_to_def stretch_def)
  have mul1: "np_multiply [[a, b], [c, d]] (Array1 [w, x]) = Inr [[a * w, b * x], [c * w, d * x]]"
    for a b c d w x
    by (simp add: np_multiply_def shape_def ncols_def broadcast_shapes_def broadcast_dim_def
        broadcast_to_def stretch_def)
  have mulc: "np_multiply [[a, b], [c, d]] (Array2 [[w], [x]]) = Inr [[a * w, b * w], [c * x, d * x]]"
    for a b c d w x
    by (simp add: np_multiply_def shape_def ncols_def broadcast_shapes_def broadcast_dim_def
        broadcast_to_def stretch_def)
  have add: "np_iadd [[a, b], [c, d]] [[w, x], [y, z]] = Inr [[a + w, b + x], [c + y, d + z]]"
    for a b c d w x y z :: real
    by (simp add: np_iadd_def shape_def ncols_def broadcast_shapes_def broadcast_dim_def
        broadcast_to_def stretch_def)
  have bin: "get_binning 0 grid_events = Inr ([1, 10, 100], [-1, 0, 1])"
    by (simp add: get_binning_def flavours_def grid_events_def grid_template_def
        same_binning_def is_equal_binning_def)
  have par: "add_params [''a'' \<mapsto> 2, ''b'' \<mapsto> 3] [''a'' \<mapsto> (1::int)] = [''a'' \<mapsto> 2, ''b'' \<mapsto> 3]"
    by (rule ext) (simp add: add_params_def)
  show ?thesis
    unfolding get_pid_maps_def bin
    by (simp add: get_params_def get_maps_def flavours_def pid_step_def
        grid_events_def grid_service_def grid_template_def
        zeros_like_def mul mul0 mul1 mulc add par)
qed

lemma all_zero_iff: "all_zero a \<longleftrightarrow> (\<forall>row\<in>set a. \<forall>x\<in>set row. x = 0)"
  by (simp add: all_zero_def list_all_iff)

lemma set_stretch: "set (stretch n xs) \<subseteq> set xs"
proof (cases "\<exists>x. xs = [x]")
  case True
  then show ?thesis by (auto simp: stretch_single)
next
  case False
  then have "length xs \<noteq> 1" by (simp add: length_1_conv)
  then show ?thesis by (simp add: stretch_other)
qed

lemma all_zero_broadcast_to: "all_zero a \<Longrightarrow> all_zero (broadcast_to a s)"
proof -
  assume z: "all_zero a"
  have "x = 0" if "row \<in> set (broadcast_to a s)" "x \<in> set row" for row x
  proof -
    from that(1) set_stretch[of "fst s" "map (stretch (snd s)) a"]
    have "row \<in> set (map (stretch (snd s)) a)" by (auto simp: broadcast_to_def)
    then obtain row' where "row' \<in> set a" "row = stretch (snd s) row'" by auto
    with that(2) set_stretch[of "snd s" row'] have "x \<in> set row'" by auto
    with z \<open>row' \<in> set a\<close> show ?thesis by (simp add: all_zero_iff)
  qed
  then show ?thesis by (simp add: all_zero_iff)
qed

lemma all_zero_times: "all_zero a \<Longrightarrow> all_zero (map2 (map2 (*)) a b)"
  by (auto simp: all_zero_iff dest!: set_zip_leftD)

lemma all_zero_plus:
  assumes "all_zero a" "all_zero b"
  shows "all_zero (map2 (map2 (+)) a b)"
proof -
  have "x + y = 0" if "(r, r') \<in> set (zip a b)" "(x, y) \<in> set (zip r r')" for r r' x y
  proof -
    from that(1) have "r \<in> set a" "r' \<in> set b"
      by (auto dest: set_zip_leftD set_zip_rightD)
    moreover from that(2) have "x \<in> set r" "y \<in> set r'"
      by (auto dest: set_zip_leftD set_zip_rightD)
    ultimately show ?thesis using assms by (fastforce simp: all_zero_iff)
  qed
  then show ?thesis by (auto simp: all_zero_iff)
qed

lemma all_zero_zeros_like: "all_zero (zeros_like a)"
  by (auto simp: all_zero_iff zeros_like_def)

lemma np_multiply_zero: "all_zero a \<Longrightarrow> np_multiply a w = Inr p \<Longrightarrow> all_zero p"
  by (auto simp: np_multiply_def Let_def all_zero_times all_zero_broadcast_to
      split: option.splits)

lemma np_iadd_zero: "all_zero acc \<Longrightarrow> all_zero p \<Longrightarrow> np_iadd acc p = Inr q \<Longrightarrow> all_zero q"
  by (auto simp: np_iadd_def all_zero_plus all_zero_broadcast_to split: if_splits)

lemma pid_step_zero:
  assumes "pid_step reco pid flav acc = Inr acc'"
    and "\<exists>t. templates reco flav = Some t \<and> all_zero (map' t)"
    and "all_zero (map' (trck acc))" "all_zero (map' (cscd acc))"
  shows "all_zero (map' (trck acc')) \<and> all_zero (map' (cscd acc'))"
proof -
  from assms(1) obtain t w pt pc qt qc where
    t: "templates reco flav = Some t" and w: "pid flav = Some w"
    and pt: "np_multiply (map' t) (pid_entry.trck w) = Inr pt"
    and pc: "np_multiply (map' t) (pid_entry.cscd w) = Inr pc"
    and qt: "np_iadd (map' (trck acc)) pt = Inr qt"
    and qc: "np_iadd (map' (cscd acc)) pc = Inr qc"
    and acc': "acc' = acc\<lparr>trck := (trck acc)\<lparr>map' := qt\<rparr>, cscd := (cscd acc)\<lparr>map' := qc\<rparr>\<rparr>"
    by (auto simp: pid_step_def split: option.splits sum.splits)
  from assms(2) t have z: "all_zero (map' t)" by simp
  from np_iadd_zero[OF assms(3) np_multiply_zero[OF z pt] qt]
    np_iadd_zero[OF assms(4) np_multiply_zero[OF z pc] qc]
  show ?thesis by (simp add: acc')
qed

lemma pid_loop_zero:
  assumes "pid_loop reco pid fs acc = Inr out"
    and "\<forall>flav\<in>set fs. \<exists>t. templates reco flav = Some t \<and> all_zero (map' t)"
    and "all_zero (map' (trck acc))" "all_zero (map' (cscd acc))"
  shows "all_zero (map' (trck out)) \<and> all_zero (map' (cscd out))"
  using assms
proof (induction fs arbitrary: acc)
  case Nil
  then show ?case by simp
next
  case (Cons flav rest)
  from Cons.prems(1) obtain acc' where
    step: "pid_step reco pid flav acc = Inr acc'" and loop: "pid_loop reco pid rest acc' = Inr out"
    by (auto split: sum.splits)
  from Cons.prems(2) have here: "\<exists>t. templates reco flav = Some t \<and> all_zero (map' t)"
    and rest: "\<forall>flav\<in>set rest. \<exists>t. templates reco flav = Some t \<and> all_zero (map' t)"
    by simp_all
  from pid_step_zero[OF step here Cons.prems(3,4)]
  have "all_zero (map' (trck acc'))" "all_zero (map' (cscd acc'))" by simp_all
  with Cons.IH[OF loop rest] show ?case by simp
qed








section \<open>The store model\<close>

lemma pid_step_st_frame:
  assumes "pid_step_st reco pid flav acc h = Inr h'"
    and "n \<le> length h" "n \<le> map' (trck acc)" "n \<le> map' (cscd acc)"
  shows "take n h' = take n h \<and> length h' = length h + 2"
  using assms
  by (auto simp: pid_step_st_def alloc_def Let_def split: option.splits sum.splits)

lemma pid_loop_st_frame:
  assumes "pid_loop_st reco pid fs acc h = Inr h'"
    and "n \<le> length h" "n \<le> map' (trck acc)" "n \<le> map' (cscd acc)"
  shows "take n h' = take n h \<and> length h \<le> length h'"
  using assms
proof (induction fs arbitrary: h)
  case Nil
  then show ?case by simp
next
  case (Cons flav rest)
  from Cons.prems(1) obtain h1 where
    step: "pid_step_st reco pid flav acc h = Inr h1"
    and loop: "pid_loop_st reco pid rest acc h1 = Inr h'"
    by (auto split: sum.splits)
  from pid_step_st_frame[OF step Cons.prems(2-4)]
  have 1: "take n h1 = take n h" "length h1 = length h + 2" by simp_all
  with Cons.prems(2) have "n \<le> length h1" by simp
  from Cons.IH[OF loop this Cons.prems(3,4)] 1 show ?case by simp
qed

lemma get_pid_maps_st_Inr:
  assumes "get_pid_maps_st tol reco pid_service h = Inr (out, h')"
  shows "\<exists>nue reco_params.
           get_binning tol reco = Inr (ebins nue, czbins nue) \<and>
           templates reco ''nue_cc'' = Some nue \<and>
           reco_events.params reco = Some reco_params \<and>
           out = \<lparr>trck = \<lparr>ebins = ebins nue, czbins = czbins nue, map' = length h\<rparr>,
                  cscd = \<lparr>ebins = ebins nue, czbins = czbins nue, map' = Suc (length h)\<rparr>,
                  params = add_params (get_params pid_service) reco_params\<rparr> \<and>
           pid_loop_st reco (get_maps pid_service) flavours out
             (h @ [zeros_like (h ! map' nue),
                   zeros_like ((h @ [zeros_like (h ! map' nue)]) ! map' nue)]) = Inr h'"
proof (cases "get_binning tol reco")
  case (Inl e)
  with assms show ?thesis by (simp add: get_pid_maps_st_def)
next
  case (Inr b)
  obtain eb cz where b: "b = (eb, cz)" by (cases b)
  show ?thesis
  proof (cases "templates reco ''nue_cc''")
    case None
    with assms Inr b show ?thesis by (simp add: get_pid_maps_st_def)
  next
    case (Some nue)
    from get_binning_Inr[OF Inr[unfolded b]] Some
    have eb: "eb = ebins nue" "cz = czbins nue" by auto
    show ?thesis
    proof (cases "reco_events.params reco")
      case None
      with assms Inr b Some show ?thesis
        by (simp add: get_pid_maps_st_def alloc_def)
    next
      case (Some reco_params)
      let ?out = "\<lparr>trck = \<lparr>ebins = eb, czbins = cz, map' = length h\<rparr>,
                    cscd = \<lparr>ebins = eb, czbins = cz, map' = Suc (length h)\<rparr>,
                    params = add_params (get_params pid_service) reco_params\<rparr>"
      let ?h2 = "h @ [zeros_like (h ! map' nue),
                   zeros_like ((h @ [zeros_like (h ! map' nue)]) ! map' nue)]"
      from assms Inr b \<open>templates reco ''nue_cc'' = Some nue\<close> Some
      have "out = ?out"
        "pid_loop_st reco (get_maps pid_service) flavours ?out ?h2 = Inr h'"
        by (auto simp: get_pid_maps_st_def alloc_def Let_def split: sum.splits)
      with Inr b eb \<open>templates reco ''nue_cc'' = Some nue\<close> Some show ?thesis by auto
    qed
  qed
qed

lemma get_pid_maps_st_frame:
  assumes "get_pid_maps_st tol reco pid_service h = Inr (out, h')"
  shows "take (length h) h' = h \<and>
         map' (trck out) = length h \<and> map' (cscd out) = Suc (length h) \<and>
         Suc (length h) < length h'"
proof -
  from get_pid_maps_st_Inr[OF assms] obtain nue :: "addr template" and z1 z2 where
    out: "map' (trck out) = length h" "map' (cscd out) = Suc (length h)"
    and loop: "pid_loop_st reco (get_maps pid_service) flavours out (h @ [z1, z2]) = Inr h'"
    by auto
  from pid_loop_st_frame[OF loop, of "length h"] out
  have "take (length h) h' = h" "length (h @ [z1, z2]) \<le> length h'" by simp_all
  with out show ?thesis by simp
qed

lemma get_templates_map:
  "get_templates (\<lambda>flav. map_option f (d flav)) fs = map_sum id (map f) (get_templates d fs)"
  by (induction fs) (auto split: option.splits sum.splits)

lemma same_binning_load:
  "same_binning tol (load_template h t) (load_template h u) = same_binning tol t u"
  by (simp add: same_binning_def load_template_def)

lemma get_binning_load: "get_binning tol (load_events h reco) = get_binning tol reco"
proof (cases "get_templates (templates reco) flavours")
  case (Inl e)
  then show ?thesis
    by (simp add: get_binning_def load_events_def get_templates_map)
next
  case (Inr ts)
  have "list_all (\<lambda>t. list_all (same_binning tol t) (map (load_template h) ts))
          (map (load_template h) ts) =
        list_all (\<lambda>t. list_all (same_binning tol t) ts) ts"
    by (simp add: list_all_iff same_binning_load)
  then show ?thesis
    by (simp add: get_binning_def load_events_def get_templates_map Inr)
      (simp add: load_template_def split: option.splits)
qed

lemma pid_step_st_pure:
  assumes h0: "take n h = h0" "n \<le> length h"
    and acc: "fresh_acc n acc h"
    and valid: "\<forall>t. templates reco flav = Some t \<longrightarrow> map' t < n"
  shows "map_sum id (\<lambda>h'. load_pid h' acc) (pid_step_st reco pid flav acc h) =
         pid_step (load_events h0 reco) pid flav (load_pid h acc)"
proof (cases "templates reco flav")
  case None
  then show ?thesis by (simp add: pid_step_st_def pid_step_def load_events_def)
next
  case (Some t)
  with valid have t: "map' t < n" by simp
  with h0 have rd: "h0 ! map' t = h ! map' t" by auto
  from t h0(2) have lt: "map' t < length h" by simp
  show ?thesis
  proof (cases "pid flav")
    case None
    with Some show ?thesis by (simp add: pid_step_st_def pid_step_def load_events_def)
  next
    case w: (Some w)
    let ?pt = "map' (trck acc)" and ?pc = "map' (cscd acc)"
    from acc have a: "?pt < length h" "?pc < length h" "?pt \<noteq> ?pc"
      by (simp_all add: fresh_acc_def)
    show ?thesis
    proof (cases "np_multiply (h ! map' t) (pid_entry.trck w)")
      case Inl
      with Some w rd show ?thesis
        by (simp add: pid_step_st_def pid_step_def load_events_def load_template_def)
    next
      case v1: (Inr v1)
      show ?thesis
      proof (cases "np_multiply (h ! map' t) (pid_entry.cscd w)")
        case Inl
        with Some w rd v1 lt show ?thesis
          by (simp add: pid_step_st_def pid_step_def load_events_def load_template_def
              alloc_def nth_append)
      next
        case v2: (Inr v2)
        show ?thesis
        proof (cases "np_iadd (h ! ?pt) v1")
          case Inl
          with Some w rd v1 v2 lt a show ?thesis
            by (simp add: pid_step_st_def pid_step_def load_events_def load_template_def
                load_pid_def alloc_def nth_append)
        next
          case s1: (Inr s1)
          show ?thesis
          proof (cases "np_iadd (h ! ?pc) v2")
            case Inl
            with Some w rd v1 v2 s1 lt a show ?thesis
              by (simp add: pid_step_st_def pid_step_def load_events_def load_template_def
                  load_pid_def alloc_def nth_append)
          next
            case s2: (Inr s2)
            with Some w rd v1 v2 s1 lt a show ?thesis
              by (simp add: pid_step_st_def pid_step_def load_events_def load_template_def
                  load_pid_def alloc_def nth_append)
          qed
        qed
      qed
    qed
  qed
qed

lemma pid_step_st_inv:
  assumes "pid_step_st reco pid flav acc h = Inr h'"
    and "take n h = h0" "n \<le> length h" "fresh_acc n acc h"
  shows "take n h' = h0 \<and> n \<le> length h' \<and> fresh_acc n acc h'"
proof -
  from assms(4) have "n \<le> map' (trck acc)" "n \<le> map' (cscd acc)"
    by (simp_all add: fresh_acc_def)
  from pid_step_st_frame[OF assms(1,3) this] assms(2-4) show ?thesis
    by (simp add: fresh_acc_def)
qed

lemma pid_loop_st_pure:
  assumes "take n h = h0" "n \<le> length h" "fresh_acc n acc h"
    and "\<forall>flav\<in>set fs. \<forall>t. templates reco flav = Some t \<longrightarrow> map' t < n"
  shows "map_sum id (\<lambda>h'. load_pid h' acc) (pid_loop_st reco pid fs acc h) =
         pid_loop (load_events h0 reco) pid fs (load_pid h acc)"
  using assms
proof (induction fs arbitrary: h)
  case Nil
  then show ?case by simp
next
  case (Cons flav rest)
  from Cons.prems(4) have here: "\<forall>t. templates reco flav = Some t \<longrightarrow> map' t < n"
    and rest: "\<forall>flav\<in>set rest. \<forall>t. templates reco flav = Some t \<longrightarrow> map' t < n"
    by simp_all
  note step = pid_step_st_pure[OF Cons.prems(1-3) here, of pid]
  show ?case
  proof (cases "pid_step_st reco pid flav acc h")
    case (Inl e)
    with step have "pid_step (load_events h0 reco) pid flav (load_pid h acc) = Inl e"
      by simp
    with Inl show ?thesis by simp
  next
    case (Inr h1)
    from pid_step_st_inv[OF Inr Cons.prems(1-3)]
    have inv: "take n h1 = h0" "n \<le> length h1" "fresh_acc n acc h1" by simp_all
    from step Inr have "pid_step (load_events h0 reco) pid flav (load_pid h acc) =
        Inr (load_pid h1 acc)" by simp
    with Cons.IH[OF inv rest] Inr show ?thesis by simp
  qed
qed

lemma valid_refsD:
  "valid_refs reco h \<Longrightarrow> flav \<in> set flavours \<Longrightarrow> templates reco flav = Some t \<Longrightarrow>
     map' t < length h"
  by (auto simp: valid_refs_def list_all_iff)

lemma get_pid_maps_st_pure:
  assumes "valid_refs reco h"
  shows "map_sum id (\<lambda>(out, h'). load_pid h' out) (get_pid_maps_st tol reco pid_service h) =
         get_pid_maps tol (load_events h reco) pid_service"
proof (cases "get_binning tol reco")
  case (Inl e)
  then show ?thesis
    by (simp add: get_pid_maps_st_def get_pid_maps_def get_binning_load)
next
  case (Inr b)
  obtain eb cz where b: "b = (eb, cz)" by (cases b)
  show ?thesis
  proof (cases "templates reco ''nue_cc''")
    case None
    with Inr b show ?thesis
      by (simp add: get_pid_maps_st_def get_pid_maps_def get_binning_load)
        (simp add: load_events_def)
  next
    case nue: (Some nue)
    from valid_refsD[OF assms _ nue] have lt: "map' nue < length h"
      by (simp add: flavours_def)
    have nue': "templates (load_events h reco) ''nue_cc'' = Some (load_template h nue)"
      by (simp add: load_events_def nue)
    show ?thesis
    proof (cases "reco_events.params reco")
      case None
      with Inr b nue show ?thesis
        unfolding get_pid_maps_st_def get_pid_maps_def get_binning_load nue'
        by (simp add: alloc_def load_events_def)
    next
      case (Some reco_params)
      let ?z = "zeros_like (h ! map' nue)"
      let ?out = "\<lparr>trck = \<lparr>ebins = eb, czbins = cz, map' = length h\<rparr>,
                    cscd = \<lparr>ebins = eb, czbins = cz, map' = Suc (length h)\<rparr>,
                    params = add_params (get_params pid_service) reco_params\<rparr>"
      have st: "get_pid_maps_st tol reco pid_service h =
          (case pid_loop_st reco (get_maps pid_service) flavours ?out (h @ [?z, ?z]) of
             Inl e \<Rightarrow> Inl e | Inr h' \<Rightarrow> Inr (?out, h'))"
        using Inr b nue Some lt
        by (simp add: get_pid_maps_st_def alloc_def Let_def nth_append cong: sum.case_cong)
      have fresh: "fresh_acc (length h) ?out (h @ [?z, ?z])"
        by (simp add: fresh_acc_def)
      have valid: "\<forall>flav\<in>set flavours. \<forall>t. templates reco flav = Some t \<longrightarrow> map' t < length h"
        using assms by (auto dest: valid_refsD)
      have ld: "load_pid (h @ [?z, ?z]) ?out =
          \<lparr>trck = \<lparr>ebins = eb, czbins = cz, map' = ?z\<rparr>,
           cscd = \<lparr>ebins = eb, czbins = cz, map' = ?z\<rparr>,
           params = add_params (get_params pid_service) reco_params\<rparr>"
        by (simp add: load_pid_def load_template_def nth_append)
      have pure: "get_pid_maps tol (load_events h reco) pid_service =
          pid_loop (load_events h reco) (get_maps pid_service) flavours
            (load_pid (h @ [?z, ?z]) ?out)"
        unfolding get_pid_maps_def get_binning_load nue' ld
        using Inr b Some by (simp add: load_events_def load_template_def)
      from pid_loop_st_pure[OF _ _ fresh valid, of h "get_maps pid_service"]
      have loop: "map_sum id (\<lambda>h'. load_pid h' ?out)
              (pid_loop_st reco (get_maps pid_service) flavours ?out (h @ [?z, ?z])) =
            pid_loop (load_events h reco) (get_maps pid_service) flavours
              (load_pid (h @ [?z, ?z]) ?out)"
        by simp
      show ?thesis
      proof (cases "pid_loop_st reco (get_maps pid_service) flavours ?out (h @ [?z, ?z])")
        case (Inl e)
        with loop have "pid_loop (load_events h reco) (get_maps pid_service) flavours
              (load_pid (h @ [?z, ?z]) ?out) = Inl e" by simp
        with Inl show ?thesis unfolding st pure by simp
      next
        case (Inr h')
        with loop have "pid_loop (load_events h reco) (get_maps pid_service) flavours
              (load_pid (h @ [?z, ?z]) ?out) = Inr (load_pid h' ?out)" by simp
        with Inr show ?thesis unfolding st pure by simp
      qed
    qed
  qed
qed

section \<open>The claims\<close>

text \<open>
  C1 (conservation). Take an input whose four categories are present with well-formed maps of
  one common shape \<open>(r, c)\<close> and equal binnings, that has the entry \<^verbatim>\<open>'params'\<close>, and a PID
  table that gives each category a track weight and a cascade weight fitting that shape.
  Then \<^verbatim>\<open>get_pid_maps\<close> returns, and in every cell \<open>(i, j)\<close> the track value plus the cascade
  value is the sum over the four categories of the category's map value times the sum of
  its two weights.
\<close>

theorem conservation:
  assumes "map (templates reco) flavours = map Some ts"
    and "map (get_maps pid_service) flavours = map Some ws"
    and "\<forall>t\<in>set ts. rect (map' t) \<and> shape (map' t) = (r, c)"
    and "\<forall>w\<in>set ws. fits (pid_entry.trck w) (r, c) \<and> fits (pid_entry.cscd w) (r, c)"
    and "\<forall>t\<in>set ts. \<forall>u\<in>set ts. same_binning tol t u"
    and "reco_events.params reco = Some reco_params"
    and "i < r" "j < c"
  shows "\<exists>out. get_pid_maps tol reco pid_service = Inr out \<and>
           map' (trck out) ! i ! j + map' (cscd out) ! i ! j =
           (\<Sum>(t, w)\<leftarrow>zip ts ws. map' t ! i ! j *
              (weight_at (pid_entry.trck w) i j + weight_at (pid_entry.cscd w) i j))"
proof -
  from get_pid_maps_cells[OF assms(1-6)] assms(7,8) obtain out where
    out: "get_pid_maps tol reco pid_service = Inr out"
      "map' (trck out) ! i ! j =
         (\<Sum>(t, w)\<leftarrow>zip ts ws. map' t ! i ! j * weight_at (pid_entry.trck w) i j)"
      "map' (cscd out) ! i ! j =
         (\<Sum>(t, w)\<leftarrow>zip ts ws. map' t ! i ! j * weight_at (pid_entry.cscd w) i j)"
    by blast
  have "(\<Sum>(t, w)\<leftarrow>xs. map' t ! i ! j * weight_at (pid_entry.trck w) i j) +
        (\<Sum>(t, w)\<leftarrow>xs. map' t ! i ! j * weight_at (pid_entry.cscd w) i j) =
        (\<Sum>(t, w)\<leftarrow>xs. map' t ! i ! j *
              (weight_at (pid_entry.trck w) i j + weight_at (pid_entry.cscd w) i j))"
    for xs :: "(array2 template \<times> pid_entry) list"
    by (induction xs) (auto simp: distrib_left)
  with out show ?thesis by simp
qed

theorem conservation_witness:
  "\<exists>out. get_pid_maps 0 grid_events grid_service = Inr out \<and>
         map' (trck out) ! 1 ! 1 + map' (cscd out) ! 1 ! 1 = 20"
  using conservation[of grid_events
      "[grid_template 1, grid_template 5, grid_template 6, grid_template 7]"
      grid_service
      "[\<lparr>pid_entry.trck = Scalar (1/2), pid_entry.cscd = Scalar (1/2)\<rparr>,
        \<lparr>pid_entry.trck = Array1 [1, 0], pid_entry.cscd = Array1 [0, 1]\<rparr>,
        \<lparr>pid_entry.trck = Array2 [[1], [0]], pid_entry.cscd = Array2 [[0], [2]]\<rparr>,
        \<lparr>pid_entry.trck = Array2 [[0, 0], [0, 1]], pid_entry.cscd = Array2 [[1, 1], [1, 0]]\<rparr>]"
      2 2 0 "[''a'' \<mapsto> 1]" 1 1]
  by (simp add: grid_events_def grid_service_def grid_template_def flavours_def get_maps_def
      rect_def shape_def ncols_def fits_def broadcast_shapes_def broadcast_dim_def
      same_binning_def is_equal_binning_def weight_at_def)

text \<open>
  C2 (the concrete scenario). Four categories, each with the \<open>2 \<times> 2\<close> map of ones on
  \<^verbatim>\<open>ebins=[1,10,100]\<close>, \<^verbatim>\<open>czbins=[-1,0,1]\<close>, and a PID table with the scalar weights 0.7 and 0.3
  for every category: the result has 2.8 in every cell of the track map and 1.2 in every
  cell of the cascade map. It holds whatever the two parameter sets are, for every
  tolerance that is not negative.
\<close>

theorem concrete_scenario:
  "0 \<le> tol \<Longrightarrow>
   get_pid_maps tol \<lparr>templates = scenario_templates, params = Some p\<rparr>
       \<lparr>pid_maps = scenario_pid, pid_params = q\<rparr> =
     Inr \<lparr>trck = \<lparr>ebins = [1, 10, 100], czbins = [-1, 0, 1],
                   map' = [[2.8, 2.8], [2.8, 2.8]]\<rparr>,
          cscd = \<lparr>ebins = [1, 10, 100], czbins = [-1, 0, 1],
                   map' = [[1.2, 1.2], [1.2, 1.2]]\<rparr>,
          params = add_params q p\<rparr>"
proof -
  assume tol: "0 \<le> tol"
  have mul: "np_multiply [[1, 1], [1, 1]] (Scalar w) = Inr [[w, w], [w, w]]" for w
    by (simp add: np_multiply_def shape_def ncols_def broadcast_shapes_def broadcast_dim_def
        broadcast_to_def stretch_def)
  have add: "np_iadd [[a, b], [c, d]] [[w, x], [y, z]] = Inr [[a + w, b + x], [c + y, d + z]]"
    for a b c d w x y z :: real
    by (simp add: np_iadd_def shape_def ncols_def broadcast_shapes_def broadcast_dim_def
        broadcast_to_def stretch_def)
  have bin: "get_binning tol \<lparr>templates = scenario_templates, params = Some p\<rparr> =
      Inr ([1, 10, 100], [-1, 0, 1])"
    using tol
    by (simp add: get_binning_def flavours_def scenario_templates_def ones_template_def
        same_binning_def is_equal_binning_def)
  show ?thesis
    unfolding get_pid_maps_def bin
    by (simp add: get_params_def get_maps_def flavours_def pid_step_def
        scenario_templates_def scenario_pid_def ones_template_def scenario_entry_def
        zeros_like_def mul add)
qed

theorem concrete_scenario_witness:
  "(0::real) \<le> 0 \<and>
   get_pid_maps 0 \<lparr>templates = scenario_templates, params = Some [''a'' \<mapsto> (1::int)]\<rparr>
       \<lparr>pid_maps = scenario_pid, pid_params = [''a'' \<mapsto> 2, ''b'' \<mapsto> 3]\<rparr> =
     Inr \<lparr>trck = \<lparr>ebins = [1, 10, 100], czbins = [-1, 0, 1],
                   map' = [[2.8, 2.8], [2.8, 2.8]]\<rparr>,
          cscd = \<lparr>ebins = [1, 10, 100], czbins = [-1, 0, 1],
                   map' = [[1.2, 1.2], [1.2, 1.2]]\<rparr>,
          params = add_params [''a'' \<mapsto> 2, ''b'' \<mapsto> 3] [''a'' \<mapsto> 1]\<rparr>"
  using concrete_scenario[of 0 "[''a'' \<mapsto> (1::int)]" "[''a'' \<mapsto> 2, ''b'' \<mapsto> 3]"] by simp

text \<open>
  C3 (the merged parameters). When \<^verbatim>\<open>get_pid_maps\<close> returns, the input had the entry
  \<^verbatim>\<open>'params'\<close>, and the parameters of the result are the input's overlaid with the PID
  table's: a key of the PID table has the PID table's value, any other key the input's.
  The witness has the parameters of the spec's scenario: \<^verbatim>\<open>{"a":1}\<close> in the input and
  \<^verbatim>\<open>{"a":2,"b":3}\<close> in the PID table give \<^verbatim>\<open>{"a":2,"b":3}\<close>.
\<close>

theorem params_merge:
  assumes "get_pid_maps tol reco pid_service = Inr out"
  shows "\<exists>reco_params. reco_events.params reco = Some reco_params \<and>
           (\<forall>k. params out k =
                  (case pid_params pid_service k of Some v \<Rightarrow> Some v | None \<Rightarrow> reco_params k))"
proof -
  from get_pid_maps_Inr[OF assms] obtain nue :: "array2 template" and reco_params where
    p: "reco_events.params reco = Some reco_params"
    and l: "pid_loop reco (get_maps pid_service) flavours
             \<lparr>trck = \<lparr>ebins = ebins nue, czbins = czbins nue, map' = zeros_like (map' nue)\<rparr>,
              cscd = \<lparr>ebins = ebins nue, czbins = czbins nue, map' = zeros_like (map' nue)\<rparr>,
              params = add_params (get_params pid_service) reco_params\<rparr> = Inr out"
    by auto
  from pid_loop_frame[OF l]
  have "params out = add_params (get_params pid_service) reco_params" by simp
  then have "params out k =
      (case pid_params pid_service k of Some v \<Rightarrow> Some v | None \<Rightarrow> reco_params k)" for k
    by (simp add: add_params_def get_params_def)
  with p show ?thesis by blast
qed

theorem params_merge_witness:
  "\<exists>out. get_pid_maps 0 grid_events grid_service = Inr out \<and>
         params out = [''a'' \<mapsto> 2, ''b'' \<mapsto> 3]"
proof -
  from grid_run obtain out where run: "get_pid_maps 0 grid_events grid_service = Inr out"
    by simp
  from params_merge[OF run]
  have "\<forall>k. params out k = (case [''a'' \<mapsto> 2, ''b'' \<mapsto> (3::int)] k of
            Some v \<Rightarrow> Some v | None \<Rightarrow> [''a'' \<mapsto> 1] k)"
    by (simp add: grid_events_def grid_service_def)
  then have "params out = [''a'' \<mapsto> 2, ''b'' \<mapsto> 3]"
    by (intro ext) simp
  with run show ?thesis by blast
qed

text \<open>
  C4 (binning mismatch). When the input has all four categories and two of them have
  binnings that are not equal (the energy edges or the cosine-zenith edges differ by more
  than the tolerance, or in number), \<^verbatim>\<open>get_pid_maps\<close> fails with \<open>BinningMismatch\<close>, whatever
  the PID table is.
\<close>

theorem binning_mismatch:
  assumes "map (templates reco) flavours = map Some ts"
    and "t \<in> set ts" "u \<in> set ts" "\<not> same_binning tol t u"
  shows "get_pid_maps tol reco pid_service = Inl BinningMismatch"
proof -
  from assms(2-4) have "\<not> list_all (\<lambda>t. list_all (same_binning tol t) ts) ts"
    by (auto simp: list_all_iff)
  then have "get_binning tol reco = Inl BinningMismatch"
    by (simp add: get_binning_def get_templates_Some[OF assms(1)])
  then show ?thesis by (simp add: get_pid_maps_def)
qed

theorem binning_mismatch_witness:
  "get_pid_maps 0 mismatch_events \<lparr>pid_maps = scenario_pid, pid_params = Map.empty\<rparr> =
     Inl BinningMismatch"
  using binning_mismatch[of mismatch_events
      "[ones_template, ones_template, ones_template\<lparr>ebins := [1, 10, 1000]\<rparr>, ones_template]"
      ones_template "ones_template\<lparr>ebins := [1, 10, 1000]\<rparr>" 0
      "\<lparr>pid_maps = scenario_pid, pid_params = Map.empty\<rparr>"]
  by (simp add: mismatch_events_def scenario_templates_def flavours_def ones_template_def
      same_binning_def is_equal_binning_def)




text \<open>
  C6 (the binning is preserved). When \<^verbatim>\<open>get_pid_maps\<close> returns, the bin edges of the track
  map and of the cascade map are those of the template of \<^verbatim>\<open>nue_cc\<close>, the reference, and every
  category's binning is equal to the reference's: within the tolerance, and element by
  element when the tolerance is zero.
\<close>

theorem binning_preserved:
  assumes "get_pid_maps tol reco pid_service = Inr out"
  shows "\<exists>nue. templates reco ''nue_cc'' = Some nue \<and>
           ebins (trck out) = ebins nue \<and> czbins (trck out) = czbins nue \<and>
           ebins (cscd out) = ebins nue \<and> czbins (cscd out) = czbins nue \<and>
           (\<forall>flav\<in>set flavours. \<exists>t. templates reco flav = Some t \<and>
              same_binning tol t nue \<and>
              (tol = 0 \<longrightarrow> ebins t = ebins nue \<and> czbins t = czbins nue))"
proof -
  from get_pid_maps_Inr[OF assms] obtain nue reco_params where
    b: "get_binning tol reco = Inr (ebins nue, czbins nue)"
    and n: "templates reco ''nue_cc'' = Some nue"
    and l: "pid_loop reco (get_maps pid_service) flavours
             \<lparr>trck = \<lparr>ebins = ebins nue, czbins = czbins nue, map' = zeros_like (map' nue)\<rparr>,
              cscd = \<lparr>ebins = ebins nue, czbins = czbins nue, map' = zeros_like (map' nue)\<rparr>,
              params = add_params (get_params pid_service) reco_params\<rparr> = Inr out"
    by auto
  from pid_loop_frame[OF l]
  have "ebins (trck out) = ebins nue" "czbins (trck out) = czbins nue"
    "ebins (cscd out) = ebins nue" "czbins (cscd out) = czbins nue" by simp_all
  moreover from get_binning_Inr[OF b] n
  have "\<forall>flav\<in>set flavours. \<exists>t. templates reco flav = Some t \<and> same_binning tol t nue"
    by auto
  then have "\<forall>flav\<in>set flavours. \<exists>t. templates reco flav = Some t \<and>
      same_binning tol t nue \<and> (tol = 0 \<longrightarrow> ebins t = ebins nue \<and> czbins t = czbins nue)"
    using same_binning_exact[of _ nue] by fastforce
  ultimately show ?thesis using n by blast
qed

theorem binning_preserved_witness:
  "\<exists>out. get_pid_maps 0 grid_events grid_service = Inr out \<and>
     ebins (trck out) = [1, 10, 100] \<and> czbins (trck out) = [-1, 0, 1] \<and>
     ebins (cscd out) = [1, 10, 100] \<and> czbins (cscd out) = [-1, 0, 1]"
proof -
  from grid_run obtain out where run: "get_pid_maps 0 grid_events grid_service = Inr out"
    by simp
  from binning_preserved[OF run] obtain nue where
    "templates grid_events ''nue_cc'' = Some nue"
    "ebins (trck out) = ebins nue" "czbins (trck out) = czbins nue"
    "ebins (cscd out) = ebins nue" "czbins (cscd out) = czbins nue"
    by blast
  then have "ebins (trck out) = [1, 10, 100] \<and> czbins (trck out) = [-1, 0, 1] \<and>
     ebins (cscd out) = [1, 10, 100] \<and> czbins (cscd out) = [-1, 0, 1]"
    by (auto simp: grid_events_def grid_template_def)
  with run show ?thesis by blast
qed

text \<open>
  C7 (linearity). When \<^verbatim>\<open>get_pid_maps\<close> returns a result for an input, it returns for the input
  with every map multiplied by \<open>k\<close> and the same PID table, and both maps of that result are
  the maps of the first multiplied by \<open>k\<close>, cell by cell; the bin edges and the parameters are
  the same.
\<close>

theorem linearity:
  assumes "get_pid_maps tol reco pid_service = Inr out"
  shows "get_pid_maps tol (scale_events k reco) pid_service = Inr (scale_pid k out)"
proof -
  from get_pid_maps_Inr[OF assms] obtain nue :: "array2 template" and reco_params where
    b: "get_binning tol reco = Inr (ebins nue, czbins nue)"
    and n: "templates reco ''nue_cc'' = Some nue"
    and p: "reco_events.params reco = Some reco_params"
    and l: "pid_loop reco (get_maps pid_service) flavours
             \<lparr>trck = \<lparr>ebins = ebins nue, czbins = czbins nue, map' = zeros_like (map' nue)\<rparr>,
              cscd = \<lparr>ebins = ebins nue, czbins = czbins nue, map' = zeros_like (map' nue)\<rparr>,
              params = add_params (get_params pid_service) reco_params\<rparr> = Inr out"
    by auto
  have n': "templates (scale_events k reco) ''nue_cc'' = Some (nue\<lparr>map' := scale k (map' nue)\<rparr>)"
    by (simp add: scale_events_def n)
  have p': "reco_events.params (scale_events k reco) = Some reco_params"
    by (simp add: scale_events_def p)
  from pid_loop_scale[OF l, of k] show ?thesis
    unfolding get_pid_maps_def get_binning_scale[OF b] n' p'
    by (simp add: scale_pid_def zeros_like_scale)
qed

theorem linearity_witness:
  "get_pid_maps 0 (scale_events 3 grid_events) grid_service =
     Inr \<lparr>trck = \<lparr>ebins = [1, 10, 100], czbins = [-1, 0, 1], map' = [[69/2, 9], [27/2, 18]]\<rparr>,
          cscd = \<lparr>ebins = [1, 10, 100], czbins = [-1, 0, 1], map' = [[45/2, 15], [63/2, 42]]\<rparr>,
          params = [''a'' \<mapsto> 2, ''b'' \<mapsto> 3]\<rparr>"
  using linearity[OF grid_run, of 3] by (simp add: scale_pid_def scale_def)

text \<open>
  C8 (zero input). When the maps of the four categories are zero in every cell and
  \<^verbatim>\<open>get_pid_maps\<close> returns, both maps of the result are zero in every cell, whatever the PID
  table is.
\<close>

theorem zero_input:
  assumes "get_pid_maps tol reco pid_service = Inr out"
    and "\<forall>flav\<in>set flavours. \<exists>t. templates reco flav = Some t \<and> all_zero (map' t)"
  shows "all_zero (map' (trck out)) \<and> all_zero (map' (cscd out))"
proof -
  from get_pid_maps_Inr[OF assms(1)] obtain nue :: "array2 template" and reco_params where
    l: "pid_loop reco (get_maps pid_service) flavours
             \<lparr>trck = \<lparr>ebins = ebins nue, czbins = czbins nue, map' = zeros_like (map' nue)\<rparr>,
              cscd = \<lparr>ebins = ebins nue, czbins = czbins nue, map' = zeros_like (map' nue)\<rparr>,
              params = add_params (get_params pid_service) reco_params\<rparr> = Inr out"
    by auto
  from pid_loop_zero[OF l assms(2)] show ?thesis by (simp add: all_zero_zeros_like)
qed

theorem zero_input_witness:
  "\<exists>out. get_pid_maps 0 (scale_events 0 grid_events) grid_service = Inr out \<and>
     map' (trck out) = [[0, 0], [0, 0]] \<and> map' (cscd out) = [[0, 0], [0, 0]]"
proof -
  let ?zero = "\<lparr>ebins = [1, 10, 100], czbins = [-1, 0, 1], map' = [[0, 0], [0, 0]]\<rparr>
                 :: array2 template"
  have "\<exists>out. get_pid_maps 0 (scale_events 0 grid_events) grid_service = Inr out \<and>
          well_shaped out (2, 2)"
    using get_pid_maps_cells[of "scale_events 0 grid_events" "[?zero, ?zero, ?zero, ?zero]"
        grid_service
        "[\<lparr>pid_entry.trck = Scalar (1/2), pid_entry.cscd = Scalar (1/2)\<rparr>,
          \<lparr>pid_entry.trck = Array1 [1, 0], pid_entry.cscd = Array1 [0, 1]\<rparr>,
          \<lparr>pid_entry.trck = Array2 [[1], [0]], pid_entry.cscd = Array2 [[0], [2]]\<rparr>,
          \<lparr>pid_entry.trck = Array2 [[0, 0], [0, 1]], pid_entry.cscd = Array2 [[1, 1], [1, 0]]\<rparr>]"
        2 2 0 "[''a'' \<mapsto> 1]"]
    by (simp add: scale_events_def scale_def grid_events_def grid_service_def
        grid_template_def flavours_def get_maps_def rect_def shape_def ncols_def fits_def
        broadcast_shapes_def broadcast_dim_def same_binning_def is_equal_binning_def)
      blast
  then obtain out where
    run: "get_pid_maps 0 (scale_events 0 grid_events) grid_service = Inr out"
    and ws: "well_shaped out (2, 2)"
    by blast
  from ws have sh: "length (map' (trck out)) = 2" "length (map' (cscd out)) = 2"
      "\<forall>row\<in>set (map' (trck out)). length row = 2" "\<forall>row\<in>set (map' (cscd out)). length row = 2"
    by (auto simp: well_shaped_def shape_def dest: rect_rows)
  have "all_zero (map' (trck out)) \<and> all_zero (map' (cscd out))"
    using run
    by (rule zero_input)
      (simp add: scale_events_def grid_events_def grid_template_def flavours_def
        all_zero_def scale_def)
  then have "\<forall>row\<in>set (map' (trck out)). row = [0, 0]" "\<forall>row\<in>set (map' (cscd out)). row = [0, 0]"
    using sh(3,4) by (auto simp: all_zero_iff length_Suc_conv numeral_2_eq_2)
  with sh(1,2) have "map' (trck out) = [[0, 0], [0, 0]] \<and> map' (cscd out) = [[0, 0], [0, 0]]"
    by (auto simp: length_Suc_conv numeral_2_eq_2)
  with run show ?thesis by blast
qed

text \<open>
  C9 (the inputs are not mutated). On the store model: when \<^verbatim>\<open>get_pid_maps\<close> returns, every
  array that was in the store before the call is what it was, so the map of every template
  of the input reads as before; the two maps of the result are at two new addresses, which
  are different from each other and from the address of every input map. And the result
  read from the store after the call is what the function on arrays as values returns for
  the input read before the call.
\<close>

theorem inputs_not_mutated:
  assumes "get_pid_maps_st tol reco pid_service h = Inr (out, h')"
  shows "take (length h) h' = h \<and>
         map' (trck out) = length h \<and> map' (cscd out) = Suc (length h) \<and>
         Suc (length h) < length h' \<and>
         (\<forall>flav t. templates reco flav = Some t \<and> map' t < length h \<longrightarrow>
            h' ! map' t = h ! map' t \<and>
            map' t \<noteq> map' (trck out) \<and> map' t \<noteq> map' (cscd out)) \<and>
         (valid_refs reco h \<longrightarrow>
            get_pid_maps tol (load_events h reco) pid_service = Inr (load_pid h' out))"
proof -
  note frame = get_pid_maps_st_frame[OF assms]
  have "h' ! p = h ! p" if "p < length h" for p
  proof -
    from that have "take (length h) h' ! p = h' ! p" by simp
    with frame show ?thesis by simp
  qed
  moreover have "get_pid_maps tol (load_events h reco) pid_service = Inr (load_pid h' out)"
    if "valid_refs reco h"
    using get_pid_maps_st_pure[OF that, of tol pid_service] assms by simp
  ultimately show ?thesis using frame by auto
qed

theorem inputs_not_mutated_witness:
  "\<exists>out h'. get_pid_maps_st 0 ref_events grid_service ref_store = Inr (out, h') \<and>
     take 4 h' = ref_store \<and> map' (trck out) = 4 \<and> map' (cscd out) = 5 \<and>
     h' ! 4 = [[23/2, 3], [9/2, 6]] \<and> h' ! 5 = [[15/2, 5], [21/2, 14]]"
proof -
  have valid: "valid_refs ref_events ref_store"
    by (simp add: valid_refs_def ref_events_def ref_store_def ref_template_def flavours_def)
  have "templates (load_events ref_store ref_events) = templates grid_events"
    by (rule ext)
      (simp add: load_events_def ref_events_def ref_store_def ref_template_def
        load_template_def grid_events_def grid_template_def)
  then have ld: "load_events ref_store ref_events = grid_events"
    by (simp add: load_events_def ref_events_def grid_events_def)
  note pure = grid_run[folded ld]
  with get_pid_maps_st_pure[OF valid, of 0 grid_service]
  obtain out h' where run: "get_pid_maps_st 0 ref_events grid_service ref_store = Inr (out, h')"
    by (cases "get_pid_maps_st 0 ref_events grid_service ref_store") auto
  from inputs_not_mutated[OF run] valid
  have frame: "take (length ref_store) h' = ref_store"
    "map' (trck out) = length ref_store" "map' (cscd out) = Suc (length ref_store)"
    and ref: "get_pid_maps 0 (load_events ref_store ref_events) grid_service =
      Inr (load_pid h' out)"
    by simp_all
  from ref[unfolded pure]
  have "load_pid h' out =
      \<lparr>trck = \<lparr>ebins = [1, 10, 100], czbins = [-1, 0, 1], map' = [[23/2, 3], [9/2, 6]]\<rparr>,
       cscd = \<lparr>ebins = [1, 10, 100], czbins = [-1, 0, 1], map' = [[15/2, 5], [21/2, 14]]\<rparr>,
       params = [''a'' \<mapsto> 2, ''b'' \<mapsto> 3]\<rparr>"
    by simp
  then have "map' (trck (load_pid h' out)) = [[23/2, 3], [9/2, 6]]"
    "map' (cscd (load_pid h' out)) = [[15/2, 5], [21/2, 14]]"
    by simp_all
  with frame have "h' ! 4 = [[23/2, 3], [9/2, 6]]" "h' ! 5 = [[15/2, 5], [21/2, 14]]"
    by (simp_all add: load_pid_def load_template_def ref_store_def eval_nat_numeral)
  with run frame show ?thesis by (simp add: ref_store_def eval_nat_numeral)
qed



end
